theory Spec2Isabelle
  imports Complex_Main
begin

section \<open>Constants of breakout4k.py\<close>

definition WIN_W :: int where "WIN_W = 800"
definition WIN_H :: int where "WIN_H = 600"
definition DT :: real where "DT = 1 / 60"

definition PADDLE_W :: int where "PADDLE_W = 100"
definition PADDLE_H :: int where "PADDLE_H = 14"
definition PADDLE_Y :: int where "PADDLE_Y = 560"

definition BALL_SIZE :: int where "BALL_SIZE = 10"
definition BALL_SPEED :: real where "BALL_SPEED = 320"

definition BRICK_COLS :: nat where "BRICK_COLS = 10"
definition BRICK_ROWS :: nat where "BRICK_ROWS = 6"
definition BRICK_W :: int where "BRICK_W = 70"
definition BRICK_H :: int where "BRICK_H = 22"
definition BRICK_TOP :: int where "BRICK_TOP = 80"
definition BRICK_LEFT :: int where "BRICK_LEFT = 65"
definition BRICK_GAP :: int where "BRICK_GAP = 6"

definition START_LIVES :: int where "START_LIVES = 3"

section \<open>Rectangles\<close>

text \<open>
  The program keeps paddle, ball and bricks as \<^verbatim>\<open>pygame.Rect\<close> values: four integers
  x, y, w, h. The library's derived attributes are written out here: \<^verbatim>\<open>left = x\<close>,
  \<^verbatim>\<open>right = x + w\<close>, \<^verbatim>\<open>top = y\<close>, \<^verbatim>\<open>bottom = y + h\<close>, \<^verbatim>\<open>centerx = x + w // 2\<close>;
  assigning to one of them moves the rectangle and keeps its size.
\<close>

record rect =
  rx :: int
  ry :: int
  rw :: int
  rh :: int

definition Rect :: "int \<Rightarrow> int \<Rightarrow> int \<Rightarrow> int \<Rightarrow> rect" where
  "Rect x y w h = \<lparr>rx = x, ry = y, rw = w, rh = h\<rparr>"

definition rect_left :: "rect \<Rightarrow> int" where "rect_left r = rx r"
definition rect_right :: "rect \<Rightarrow> int" where "rect_right r = rx r + rw r"
definition rect_top :: "rect \<Rightarrow> int" where "rect_top r = ry r"
definition rect_bottom :: "rect \<Rightarrow> int" where "rect_bottom r = ry r + rh r"
definition rect_centerx :: "rect \<Rightarrow> int" where "rect_centerx r = rx r + rw r div 2"

definition set_left :: "int \<Rightarrow> rect \<Rightarrow> rect" where "set_left v r = r\<lparr>rx := v\<rparr>"
definition set_right :: "int \<Rightarrow> rect \<Rightarrow> rect" where "set_right v r = r\<lparr>rx := v - rw r\<rparr>"
definition set_top :: "int \<Rightarrow> rect \<Rightarrow> rect" where "set_top v r = r\<lparr>ry := v\<rparr>"
definition set_bottom :: "int \<Rightarrow> rect \<Rightarrow> rect" where "set_bottom v r = r\<lparr>ry := v - rh r\<rparr>"
definition set_centerx :: "int \<Rightarrow> rect \<Rightarrow> rect" where
  "set_centerx v r = r\<lparr>rx := v - rw r div 2\<rparr>"

text \<open>
  \<^verbatim>\<open>Rect.colliderect\<close>: two rectangles of positive width and height (the only ones this
  program builds) collide when their interiors overlap; sharing an edge is no collision.
\<close>

definition colliderect :: "rect \<Rightarrow> rect \<Rightarrow> bool" where
  "colliderect a b \<longleftrightarrow>
     rect_left a < rect_right b \<and> rect_top a < rect_bottom b \<and>
     rect_right a > rect_left b \<and> rect_bottom a > rect_top b"

section \<open>Bricks\<close>

definition brick_rect :: "nat \<Rightarrow> nat \<Rightarrow> rect" where
  "brick_rect r c =
     Rect (BRICK_LEFT + int c * (BRICK_W + BRICK_GAP))
          (BRICK_TOP + int r * (BRICK_H + BRICK_GAP)) BRICK_W BRICK_H"

definition reset_bricks :: "int list list" where
  "reset_bricks = replicate BRICK_ROWS (replicate BRICK_COLS 1)"

text \<open>
  \<^verbatim>\<open>all_bricks_cleared\<close> walks the rows and, inside a row, the cells, and returns False at
  the first cell that is not 0.
\<close>

fun all_bricks_cleared :: "int list list \<Rightarrow> bool" where
  "all_bricks_cleared [] = True"
| "all_bricks_cleared ([] # rows) = all_bricks_cleared rows"
| "all_bricks_cleared ((b # bs) # rows) =
     (if b \<noteq> 0 then False else all_bricks_cleared (bs # rows))"

section \<open>Velocity and launch\<close>

text \<open>
  The velocity is a two-element list of Python floats. Here it is a pair of real numbers:
  the arithmetic on it is exact, so a statement below about a velocity is a statement about
  the computation without rounding.

  \<^verbatim>\<open>int(f)\<close> on a float truncates toward zero.
\<close>

type_synonym velocity = "real \<times> real"

definition py_int :: "real \<Rightarrow> int" where
  "py_int f = (if 0 \<le> f then \<lfloor>f\<rfloor> else \<lceil>f\<rceil>)"

text \<open>
  \<^verbatim>\<open>reset_ball_paddle(rng)\<close> calls \<^verbatim>\<open>rng.random()\<close> twice; the two draws, floats in
  \<open>[0, 1)\<close>, are the arguments \<open>u1\<close> and \<open>u2\<close>.
\<close>

definition launch_angle :: "real \<Rightarrow> real" where
  "launch_angle u1 = pi / 4 + u1 * (pi / 2)"

definition dir_sign :: "real \<Rightarrow> real" where
  "dir_sign u2 = (if u2 < 0.5 then -1 else 1)"

definition launch_vel :: "real \<Rightarrow> real \<Rightarrow> velocity" where
  "launch_vel u1 u2 =
     (cos (launch_angle u1) * BALL_SPEED * dir_sign u2,
      - \<bar>sin (launch_angle u1) * BALL_SPEED\<bar>)"

definition reset_ball_paddle :: "real \<Rightarrow> real \<Rightarrow> rect \<times> rect \<times> velocity" where
  "reset_ball_paddle u1 u2 =
     (Rect ((WIN_W - PADDLE_W) div 2) PADDLE_Y PADDLE_W PADDLE_H,
      Rect (WIN_W div 2 - BALL_SIZE div 2) (WIN_H div 2 + 60) BALL_SIZE BALL_SIZE,
      launch_vel u1 u2)"

section \<open>Reflection from a brick\<close>

text \<open>
  \<^verbatim>\<open>reflect_from_brick(ball, rb, vel)\<close> mutates the ball and the velocity; the model returns
  both. The three \<^verbatim>\<open>if\<close> statements that look for the smallest penetration run one after
  the other on the pair of the current minimum and its normal.
\<close>

definition pick_normal :: "int \<Rightarrow> int \<Rightarrow> int \<Rightarrow> int \<Rightarrow> int \<times> int" where
  "pick_normal left_pen right_pen top_pen bot_pen =
     (let s0 = (left_pen, (1, 0));
          s1 = (if right_pen < fst s0 then (right_pen, (- 1, 0)) else s0);
          s2 = (if top_pen < fst s1 then (top_pen, (0, 1)) else s1);
          s3 = (if bot_pen < fst s2 then (bot_pen, (0, - 1)) else s2)
      in snd s3)"

definition reflect_from_brick :: "rect \<Rightarrow> rect \<Rightarrow> velocity \<Rightarrow> rect \<times> velocity" where
  "reflect_from_brick ball rb vel =
     (let left_pen = rect_right rb - rect_left ball;
          right_pen = rect_right ball - rect_left rb;
          top_pen = rect_bottom rb - rect_top ball;
          bot_pen = rect_bottom ball - rect_top rb;
          (nx, ny) = pick_normal left_pen right_pen top_pen bot_pen;
          (ball1, vel1) =
            (if nx \<noteq> 0
             then (if nx > 0 then set_left (rect_right rb + 1) ball
                   else set_right (rect_left rb - 1) ball,
                   (- fst vel, snd vel))
             else (ball, vel))
      in if ny \<noteq> 0
         then (if ny > 0 then set_top (rect_bottom rb + 1) ball1
               else set_bottom (rect_top rb - 1) ball1,
               (fst vel1, - snd vel1))
         else (ball1, vel1))"

section \<open>Game state\<close>

text \<open>
  The local variables of \<^verbatim>\<open>main\<close> that the simulation reads and writes. Sounds, drawing
  and the clock do not act on them and are left out.
\<close>

record game =
  bricks :: "int list list"
  paddle :: rect
  ball :: rect
  vel :: velocity
  lives :: int
  score :: int
  paused :: bool
  game_over :: bool
  is_win :: bool

datatype error = IndexError | ZeroDivisionError

text \<open>The start of \<^verbatim>\<open>main\<close>, and the R key, which assigns every variable again.\<close>

definition new_game :: "real \<Rightarrow> real \<Rightarrow> game" where
  "new_game u1 u2 =
     (let (p, b, v) = reset_ball_paddle u1 u2
      in \<lparr>bricks = reset_bricks, paddle = p, ball = b, vel = v, lives = START_LIVES,
          score = 0, paused = False, game_over = False, is_win = False\<rparr>)"

definition key_r :: "real \<Rightarrow> real \<Rightarrow> game \<Rightarrow> game" where
  "key_r u1 u2 g =
     (let (p, b, v) = reset_ball_paddle u1 u2
      in g\<lparr>bricks := reset_bricks, paddle := p, ball := b, vel := v, lives := START_LIVES,
           score := 0, paused := False, game_over := False, is_win := False\<rparr>)"

definition key_p :: "game \<Rightarrow> game" where
  "key_p g = g\<lparr>paused := \<not> paused g\<rparr>"

definition mouse_control :: "int \<Rightarrow> game \<Rightarrow> game" where
  "mouse_control mx g =
     (if \<not> game_over g
      then let p0 = set_centerx mx (paddle g);
               p1 = (if rect_left p0 < 0 then set_left 0 p0 else p0);
               p2 = (if rect_right p1 > WIN_W then set_right WIN_W p1 else p1)
           in g\<lparr>paddle := p2\<rparr>
      else g)"

section \<open>The phases of a fixed step\<close>

definition move_ball :: "game \<Rightarrow> game" where
  "move_ball g =
     g\<lparr>ball := (ball g)\<lparr>rx := rx (ball g) + py_int (fst (vel g) * DT),
                        ry := ry (ball g) + py_int (snd (vel g) * DT)\<rparr>\<rparr>"

definition walls :: "game \<Rightarrow> game" where
  "walls g =
     (let g1 = (if rect_left (ball g) \<le> 0
                then g\<lparr>ball := set_left 0 (ball g), vel := (\<bar>fst (vel g)\<bar>, snd (vel g))\<rparr>
                else if rect_right (ball g) \<ge> WIN_W
                then g\<lparr>ball := set_right WIN_W (ball g),
                       vel := (- \<bar>fst (vel g)\<bar>, snd (vel g))\<rparr>
                else g)
      in if rect_top (ball g1) \<le> 0
         then g1\<lparr>ball := set_top 0 (ball g1), vel := (fst (vel g1), \<bar>snd (vel g1)\<bar>)\<rparr>
         else g1)"

definition lose_life :: "real \<Rightarrow> real \<Rightarrow> game \<Rightarrow> game" where
  "lose_life u1 u2 g =
     (if rect_top (ball g) > WIN_H
      then let g1 = g\<lparr>lives := lives g - 1\<rparr>
           in if lives g1 \<le> 0
              then g1\<lparr>game_over := True, is_win := False\<rparr>
              else (let (p, b, v) = reset_ball_paddle u1 u2
                    in g1\<lparr>paddle := p, ball := b, vel := v\<rparr>)
      else g)"

text \<open>
  \<^verbatim>\<open>math.hypot(x, y)\<close> is the square root of \<open>x\<^sup>2 + y\<^sup>2\<close>. The division by
  \<^verbatim>\<open>float(paddle.width)\<close> raises on a paddle of width 0.
\<close>

definition hypot :: "real \<Rightarrow> real \<Rightarrow> real" where
  "hypot x y = sqrt (x\<^sup>2 + y\<^sup>2)"

definition paddle_collision :: "game \<Rightarrow> error + game" where
  "paddle_collision g =
     (if colliderect (ball g) (paddle g) \<and> snd (vel g) > 0
      then if rw (paddle g) = 0 then Inl ZeroDivisionError
           else let hit = real_of_int (rect_centerx (ball g) - rect_left (paddle g))
                            / real_of_int (rw (paddle g));
                    ang = (hit - 0.5) * (pi / 1.2);
                    speed = hypot (fst (vel g)) (snd (vel g))
                in Inr (g\<lparr>vel := (speed * sin ang, - \<bar>speed * cos ang\<bar>),
                          ball := set_bottom (rect_top (paddle g) - 1) (ball g)\<rparr>)
      else Inr g)"

text \<open>
  The brick scan. \<^verbatim>\<open>bricks[r][c]\<close> raises IndexError outside the grid. The body of the
  innermost \<^verbatim>\<open>if\<close> is \<open>hit_brick_at\<close>; the inner loop returns the flag \<^verbatim>\<open>hit_brick\<close>
  with the state, and the outer loop stops at the head of the next row when it is set.
\<close>

definition brick_at :: "int list list \<Rightarrow> nat \<Rightarrow> nat \<Rightarrow> error + int" where
  "brick_at bs r c =
     (if r < length bs \<and> c < length (bs ! r) then Inr (bs ! r ! c) else Inl IndexError)"

definition hit_brick_at :: "nat \<Rightarrow> nat \<Rightarrow> game \<Rightarrow> game" where
  "hit_brick_at r c g =
     (let (b, v) = reflect_from_brick (ball g) (brick_rect r c) (vel g);
          g1 = g\<lparr>ball := b, vel := v, bricks := (bricks g)[r := (bricks g ! r)[c := 0]],
                 score := score g + 10\<rparr>
      in if all_bricks_cleared (bricks g1) then g1\<lparr>game_over := True, is_win := True\<rparr>
         else g1)"

fun scan_cols :: "nat \<Rightarrow> nat list \<Rightarrow> game \<Rightarrow> error + (bool \<times> game)" where
  "scan_cols r [] g = Inr (False, g)"
| "scan_cols r (c # cs) g =
     (case brick_at (bricks g) r c of
        Inl e \<Rightarrow> Inl e
      | Inr b \<Rightarrow>
          if b = 0 then scan_cols r cs g
          else if colliderect (ball g) (brick_rect r c) then Inr (True, hit_brick_at r c g)
          else scan_cols r cs g)"

fun scan_rows :: "nat list \<Rightarrow> bool \<Rightarrow> game \<Rightarrow> error + game" where
  "scan_rows [] hit_brick g = Inr g"
| "scan_rows (r # rs) hit_brick g =
     (if hit_brick then Inr g
      else case scan_cols r [0..<BRICK_COLS] g of
             Inl e \<Rightarrow> Inl e
           | Inr (h, g1) \<Rightarrow> scan_rows rs h g1)"

definition brick_collision :: "game \<Rightarrow> error + game" where
  "brick_collision g = scan_rows [0..<BRICK_ROWS] False g"

text \<open>
  One pass of the body of \<^verbatim>\<open>while acc >= DT\<close>. The draws \<open>u1\<close>, \<open>u2\<close> are the ones a
  respawn in this step would take from the generator.
\<close>

definition fixed_step :: "real \<Rightarrow> real \<Rightarrow> game \<Rightarrow> error + game" where
  "fixed_step u1 u2 g =
     (if \<not> paused g \<and> \<not> game_over g
      then case paddle_collision (lose_life u1 u2 (walls (move_ball g))) of
             Inl e \<Rightarrow> Inl e
           | Inr g1 \<Rightarrow> brick_collision g1
      else Inr g)"

section \<open>Reachable states\<close>

text \<open>
  What the main loop can do to the state, in any interleaving: start, the P and R keys,
  the mouse, and a fixed step that raises nothing. The loop runs zero or more fixed steps
  per frame, as many as the clock's accumulator holds; how many is of no concern here,
  since every run of the loop is such an interleaving. A draw of the generator lies in
  \<open>[0, 1)\<close>.
\<close>

definition draw :: "real \<Rightarrow> bool" where
  "draw u \<longleftrightarrow> 0 \<le> u \<and> u < 1"

inductive reachable :: "game \<Rightarrow> bool" where
  start: "draw u1 \<Longrightarrow> draw u2 \<Longrightarrow> reachable (new_game u1 u2)"
| press_p: "reachable g \<Longrightarrow> reachable (key_p g)"
| press_r: "reachable g \<Longrightarrow> draw u1 \<Longrightarrow> draw u2 \<Longrightarrow> reachable (key_r u1 u2 g)"
| mouse: "reachable g \<Longrightarrow> reachable (mouse_control mx g)"
| step: "reachable g \<Longrightarrow> draw u1 \<Longrightarrow> draw u2 \<Longrightarrow> fixed_step u1 u2 g = Inr g' \<Longrightarrow> reachable g'"

text \<open>
  The program computes its velocities in floating point, so in its own runs a velocity can
  be off the exact value by the rounding of each operation, and a displacement
  \<^verbatim>\<open>int(vel[i] * DT)\<close> can be that of a slightly different velocity. The states below allow
  for it: between any two actions the velocity may change to any other. Every run of the
  program with rounded arithmetic stays inside them, and so does every exact run.
\<close>

inductive reachable_rounded :: "game \<Rightarrow> bool" where
  r_start: "draw u1 \<Longrightarrow> draw u2 \<Longrightarrow> reachable_rounded (new_game u1 u2)"
| r_press_p: "reachable_rounded g \<Longrightarrow> reachable_rounded (key_p g)"
| r_press_r: "reachable_rounded g \<Longrightarrow> draw u1 \<Longrightarrow> draw u2 \<Longrightarrow>
     reachable_rounded (key_r u1 u2 g)"
| r_mouse: "reachable_rounded g \<Longrightarrow> reachable_rounded (mouse_control mx g)"
| r_step: "reachable_rounded g \<Longrightarrow> draw u1 \<Longrightarrow> draw u2 \<Longrightarrow>
     fixed_step u1 u2 g = Inr g' \<Longrightarrow> reachable_rounded g'"
| r_round: "reachable_rounded g \<Longrightarrow> reachable_rounded (g\<lparr>vel := v\<rparr>)"

text \<open>The shape every state of a run has: a full grid, and the fixed sizes of ball and paddle.\<close>

definition grid_ok :: "int list list \<Rightarrow> bool" where
  "grid_ok bs \<longleftrightarrow> length bs = BRICK_ROWS \<and> list_all (\<lambda>row. length row = BRICK_COLS) bs"

definition shapes_ok :: "game \<Rightarrow> bool" where
  "shapes_ok g \<longleftrightarrow>
     grid_ok (bricks g) \<and> rw (ball g) = BALL_SIZE \<and> rh (ball g) = BALL_SIZE \<and>
     rw (paddle g) = PADDLE_W \<and> rh (paddle g) = PADDLE_H \<and> ry (paddle g) = PADDLE_Y"

definition dead_count :: "int list list \<Rightarrow> nat" where
  "dead_count bs = length (filter (\<lambda>b. b = 0) (concat bs))"

subsection \<open>The claims' own vocabulary\<close>

datatype side = SLeft | SRight | STop | SBottom

definition sides :: "side list" where
  "sides = [SLeft, SRight, STop, SBottom]"

fun penetration :: "side \<Rightarrow> rect \<Rightarrow> rect \<Rightarrow> int" where
  "penetration SLeft bl rb = rect_right rb - rect_left bl"
| "penetration SRight bl rb = rect_right bl - rect_left rb"
| "penetration STop bl rb = rect_bottom rb - rect_top bl"
| "penetration SBottom bl rb = rect_bottom bl - rect_top rb"

text \<open>The first side, in the order left, right, top, bottom, whose penetration is least.\<close>

definition min_side :: "rect \<Rightarrow> rect \<Rightarrow> side" where
  "min_side bl rb =
     hd (filter (\<lambda>s. list_all (\<lambda>t. penetration s bl rb \<le> penetration t bl rb) sides)
           sides)"

text \<open>One unit beyond the brick's edge on the chosen side, and the velocity reflected.\<close>

fun push_out :: "side \<Rightarrow> rect \<Rightarrow> rect \<Rightarrow> rect" where
  "push_out SLeft bl rb = set_left (rect_right rb + 1) bl"
| "push_out SRight bl rb = set_right (rect_left rb - 1) bl"
| "push_out STop bl rb = set_top (rect_bottom rb + 1) bl"
| "push_out SBottom bl rb = set_bottom (rect_top rb - 1) bl"

fun bounce :: "side \<Rightarrow> velocity \<Rightarrow> velocity" where
  "bounce SLeft (vx, vy) = (- vx, vy)"
| "bounce SRight (vx, vy) = (- vx, vy)"
| "bounce STop (vx, vy) = (vx, - vy)"
| "bounce SBottom (vx, vy) = (vx, - vy)"

text \<open>The place of a side in the order in which the code compares them.\<close>

fun side_rank :: "side \<Rightarrow> nat" where
  "side_rank SLeft = 0"
| "side_rank SRight = 1"
| "side_rank STop = 2"
| "side_rank SBottom = 3"

fun normal_of :: "side \<Rightarrow> int \<times> int" where
  "normal_of SLeft = (1, 0)"
| "normal_of SRight = (- 1, 0)"
| "normal_of STop = (0, 1)"
| "normal_of SBottom = (0, - 1)"

text \<open>The cells of the grid in row-major order, and the first live brick the ball overlaps.\<close>

definition cells :: "(nat \<times> nat) list" where
  "cells = concat (map (\<lambda>r. map (\<lambda>c. (r, c)) [0..<BRICK_COLS]) [0..<BRICK_ROWS])"

definition alive_hit :: "game \<Rightarrow> nat \<times> nat \<Rightarrow> bool" where
  "alive_hit g = (\<lambda>(r, c). bricks g ! r ! c \<noteq> 0 \<and> colliderect (ball g) (brick_rect r c))"

definition first_hit :: "game \<Rightarrow> (nat \<times> nat) option" where
  "first_hit g = find (alive_hit g) cells"

text \<open>
  The life-loss event of a step: after integration and walls the ball's top edge is below
  the bottom edge of the window. Won and Lost are the two ways \<^verbatim>\<open>game_over\<close> is set.
\<close>

definition life_lost :: "game \<Rightarrow> bool" where
  "life_lost g \<longleftrightarrow> WIN_H < rect_top (ball (walls (move_ball g)))"

definition won :: "game \<Rightarrow> bool" where
  "won g \<longleftrightarrow> game_over g \<and> is_win g"


text \<open>
  The ball's box against the window: inside the three walls, and inside the whole window.
\<close>

definition ball_in :: "game \<Rightarrow> bool" where
  "ball_in g \<longleftrightarrow>
     0 \<le> rect_left (ball g) \<and> rect_right (ball g) \<le> WIN_W \<and> 0 \<le> rect_top (ball g)"

definition inside_window :: "rect \<Rightarrow> bool" where
  "inside_window b \<longleftrightarrow>
     0 \<le> rect_left b \<and> rect_right b \<le> WIN_W \<and> 0 \<le> rect_top b \<and> rect_bottom b \<le> WIN_H"

text \<open>The speed of a velocity is its length.\<close>

definition speed :: "velocity \<Rightarrow> real" where
  "speed v = hypot (fst v) (snd v)"

text \<open>
  Every brick of a grid is dead: every cell of every row is 0. This is said of the grid
  itself, not through the program's own test.
\<close>

definition all_dead :: "int list list \<Rightarrow> bool" where
  "all_dead bs \<longleftrightarrow> list_all (\<lambda>row. list_all (\<lambda>b. b = 0) row) bs"

text \<open>What holds of every state of a run, as proved below.\<close>

definition game_inv :: "game \<Rightarrow> bool" where
  "game_inv g \<longleftrightarrow>
     shapes_ok g \<and> (\<not> game_over g \<longrightarrow> 1 \<le> lives g) \<and> (is_win g \<longrightarrow> game_over g) \<and>
     (won g \<longleftrightarrow> all_dead (bricks g)) \<and>
     score g = 10 * int (dead_count (bricks g))"

text \<open>
  The launch direction in the claim's terms: the angle between a velocity and the
  horizontal, and, for the launch from two draws, that angle and the side the ball goes to
  (1 right, -1 left). The angle the code draws is measured from the positive x axis and
  runs past the vertical; beyond it the direction's angle off the horizontal is the
  supplement and the side is the opposite of the sign drawn.
\<close>

definition off_horizontal :: "velocity \<Rightarrow> real" where
  "off_horizontal v = arccos (\<bar>fst v\<bar> / speed v)"

definition launch_incline :: "real \<Rightarrow> real" where
  "launch_incline u1 =
     (if launch_angle u1 \<le> pi / 2 then launch_angle u1 else pi - launch_angle u1)"

definition launch_side :: "real \<Rightarrow> real \<Rightarrow> real" where
  "launch_side u1 u2 = (if launch_angle u1 \<le> pi / 2 then dir_sign u2 else - dir_sign u2)"

subsection \<open>Example states\<close>

text \<open>A full grid and a ball that overlaps the two leftmost bricks of the top row.\<close>

definition two_bricks :: game where
  "two_bricks =
     \<lparr>bricks = reset_bricks, paddle = Rect 350 560 100 14, ball = Rect 133 95 10 10,
      vel = (3, - 4), lives = 3, score = 0, paused = False, game_over = False,
      is_win = False\<rparr>"


text \<open>
  The ball on its way straight up after the launch with draws 1/2 and 1/2, the state after
  it has broken its first brick, and a grid with a single live brick left.
\<close>

definition rising :: "int \<Rightarrow> game" where
  "rising y =
     \<lparr>bricks = reset_bricks, paddle = Rect 350 560 100 14, ball = Rect 395 y 10 10,
      vel = (0, - 320), lives = 3, score = 0, paused = False, game_over = False,
      is_win = False\<rparr>"

definition last_brick :: game where
  "last_brick =
     \<lparr>bricks = (replicate 6 (replicate 10 0))[5 := (replicate 10 0)[4 := 1]],
      paddle = Rect 350 560 100 14, ball = Rect 395 245 10 10, vel = (0, - 320), lives = 3,
      score = 590, paused = False, game_over = False, is_win = False\<rparr>"

definition first_break :: game where
  "first_break =
     \<lparr>bricks = reset_bricks[5 := (reset_bricks ! 5)[4 := 0]], paddle = Rect 350 560 100 14,
      ball = Rect 395 243 10 10, vel = (0, 320), lives = 3, score = 10, paused = False,
      game_over = False, is_win = False\<rparr>"

text \<open>A ball that crosses the left and the top edge in one step.\<close>

definition corner :: game where
  "corner =
     \<lparr>bricks = reset_bricks, paddle = Rect 350 560 100 14, ball = Rect 2 2 10 10,
      vel = (- 256, - 192), lives = 3, score = 0, paused = False, game_over = False,
      is_win = False\<rparr>"

text \<open>After the first brick, with the paddle moved away: the ball falls past it.\<close>

definition dropping :: "int \<Rightarrow> game" where
  "dropping y = first_break\<lparr>paddle := Rect 0 560 100 14, ball := Rect 395 y 10 10\<rparr>"

text \<open>A ball coming down on the middle of the paddle at speed 320.\<close>

definition paddle_hit :: game where
  "paddle_hit =
     \<lparr>bricks = reset_bricks, paddle = Rect 350 560 100 14, ball = Rect 395 555 10 10,
      vel = (192, 256), lives = 3, score = 0, paused = False, game_over = False,
      is_win = False\<rparr>"

section \<open>Basic facts\<close>

lemmas consts_defs =
  WIN_W_def WIN_H_def DT_def PADDLE_W_def PADDLE_H_def PADDLE_Y_def BALL_SIZE_def
  BALL_SPEED_def BRICK_COLS_def BRICK_ROWS_def BRICK_W_def BRICK_H_def BRICK_TOP_def
  BRICK_LEFT_def BRICK_GAP_def START_LIVES_def

lemmas rect_defs =
  Rect_def rect_left_def rect_right_def rect_top_def rect_bottom_def rect_centerx_def
  set_left_def set_right_def set_top_def set_bottom_def set_centerx_def

section \<open>Reflection from a brick: the side of least penetration\<close>

lemma pick_normal_min_side:
  "pick_normal (penetration SLeft bl rb) (penetration SRight bl rb)
     (penetration STop bl rb) (penetration SBottom bl rb) = normal_of (min_side bl rb)"
  unfolding pick_normal_def min_side_def sides_def Let_def
  by (simp del: penetration.simps)

lemma reflect_from_brick_side:
  "reflect_from_brick bl rb v =
     (push_out (min_side bl rb) bl rb, bounce (min_side bl rb) v)"
proof -
  obtain vx vy where v: "v = (vx, vy)" by (cases v)
  show ?thesis
    unfolding reflect_from_brick_def Let_def
    using pick_normal_min_side[of bl rb]
    by (cases "min_side bl rb") (simp_all add: v)
qed

lemma reflect_from_brick_size:
  "reflect_from_brick bl rb v = (bl', v') \<Longrightarrow> rw bl' = rw bl \<and> rh bl' = rh bl"
  by (cases "min_side bl rb") (auto simp: reflect_from_brick_side rect_defs)

lemma min_side_least: "penetration (min_side bl rb) bl rb \<le> penetration t bl rb"
  by (cases t) (auto simp: min_side_def sides_def)

lemma min_side_first:
  "penetration t bl rb = penetration (min_side bl rb) bl rb \<Longrightarrow>
     side_rank (min_side bl rb) \<le> side_rank t"
  by (cases t) (auto simp: min_side_def sides_def split: if_splits)

text \<open>
  Claim C1. \<^verbatim>\<open>reflect_from_brick\<close> chooses the side of least penetration among
  left = brick.right - ball.left, right = ball.right - brick.left,
  top = brick.bottom - ball.top and bottom = ball.bottom - brick.top, the first in that
  order on a tie; it negates the velocity component across that side and puts the ball one
  unit beyond the brick's edge on that axis, leaving the other coordinate and component alone.
\<close>

theorem reflect_from_brick_min_penetration:
  "reflect_from_brick bl rb v =
     (push_out (min_side bl rb) bl rb, bounce (min_side bl rb) v) \<and>
   (\<forall>t. penetration (min_side bl rb) bl rb \<le> penetration t bl rb) \<and>
   (\<forall>t. penetration t bl rb = penetration (min_side bl rb) bl rb \<longrightarrow>
        side_rank (min_side bl rb) \<le> side_rank t)"
proof (intro conjI allI impI)
  show "reflect_from_brick bl rb v =
     (push_out (min_side bl rb) bl rb, bounce (min_side bl rb) v)"
    by (rule reflect_from_brick_side)
next
  fix t
  show "penetration (min_side bl rb) bl rb \<le> penetration t bl rb"
    by (rule min_side_least)
next
  fix t
  assume "penetration t bl rb = penetration (min_side bl rb) bl rb"
  then show "side_rank (min_side bl rb) \<le> side_rank t"
    by (rule min_side_first)
qed

text \<open>
  A tie: a ball at (128, 95) against brick (0, 0), whose rectangle is (65, 80, 70, 22). The
  penetrations are left 7, right 73, top 7 and bottom 25; left comes first, so the ball is
  put at x = 136 and the horizontal velocity is negated.
\<close>

theorem reflect_from_brick_min_penetration_witness:
  "penetration SLeft (Rect 128 95 10 10) (brick_rect 0 0) = 7 \<and>
   penetration STop (Rect 128 95 10 10) (brick_rect 0 0) = 7 \<and>
   min_side (Rect 128 95 10 10) (brick_rect 0 0) = SLeft \<and>
   reflect_from_brick (Rect 128 95 10 10) (brick_rect 0 0) (3, - 4) =
     (Rect 136 95 10 10, (- 3, - 4))"
  using reflect_from_brick_min_penetration [of "Rect 128 95 10 10" "brick_rect 0 0" "(3, - 4)"]
  by (simp add: min_side_def sides_def brick_rect_def rect_defs consts_defs)

section \<open>The brick scan\<close>

lemma find_append_cases:
  "find P (xs @ ys) = (case find P xs of None \<Rightarrow> find P ys | Some x \<Rightarrow> Some x)"
  by (induction xs) auto

lemma find_map_Pair:
  "find P (map (\<lambda>c. (r, c)) cs) = map_option (\<lambda>c. (r, c)) (find (\<lambda>c. P (r, c)) cs)"
  by (induction cs) auto

lemma scan_cols_find:
  assumes "r < length (bricks g)" and "\<forall>c\<in>set cs. c < length (bricks g ! r)"
  shows "scan_cols r cs g =
           Inr (case find (\<lambda>c. alive_hit g (r, c)) cs of
                  None \<Rightarrow> (False, g) | Some c \<Rightarrow> (True, hit_brick_at r c g))"
  using assms by (induction cs) (auto simp: brick_at_def alive_hit_def)

lemma scan_rows_hit: "scan_rows rs True g = Inr g"
  by (cases rs) auto

lemma scan_rows_find:
  assumes "\<forall>r\<in>set rs. r < length (bricks g) \<and> BRICK_COLS \<le> length (bricks g ! r)"
  shows "scan_rows rs False g =
           Inr (case find (alive_hit g) (concat (map (\<lambda>r. map (\<lambda>c. (r, c)) [0..<BRICK_COLS]) rs)) of
                  None \<Rightarrow> g | Some (r, c) \<Rightarrow> hit_brick_at r c g)"
  using assms
proof (induction rs)
  case Nil
  then show ?case by simp
next
  case (Cons r rs)
  have row: "scan_cols r [0..<BRICK_COLS] g =
           Inr (case find (\<lambda>c. alive_hit g (r, c)) [0..<BRICK_COLS] of
                  None \<Rightarrow> (False, g) | Some c \<Rightarrow> (True, hit_brick_at r c g))"
    using Cons.prems by (intro scan_cols_find) auto
  show ?case
  proof (cases "find (\<lambda>c. alive_hit g (r, c)) [0..<BRICK_COLS]")
    case None
    with row Cons show ?thesis
      by (simp add: find_append_cases find_map_Pair)
  next
    case (Some c)
    with row show ?thesis
      by (simp add: find_append_cases find_map_Pair scan_rows_hit)
  qed
qed

lemma grid_ok_index:
  "grid_ok bs \<Longrightarrow> r < BRICK_ROWS \<Longrightarrow> r < length bs \<and> length (bs ! r) = BRICK_COLS"
  by (auto simp: grid_ok_def list_all_length)

lemma grid_ok_reset_bricks: "grid_ok reset_bricks"
  by (simp add: grid_ok_def reset_bricks_def list_all_iff)

lemma grid_ok_kill:
  "grid_ok bs \<Longrightarrow> grid_ok (bs[r := (bs ! r)[c := 0]])"
proof -
  assume ok: "grid_ok bs"
  have "length (bs[r := (bs ! r)[c := 0]] ! n) = BRICK_COLS" if "n < length bs" for n
    using ok that by (cases "n = r") (simp_all add: grid_ok_def list_all_length)
  with ok show ?thesis
    by (simp add: grid_ok_def list_all_length)
qed

lemma brick_collision_eq:
  assumes "grid_ok (bricks g)"
  shows "brick_collision g =
           Inr (case first_hit g of None \<Rightarrow> g | Some (r, c) \<Rightarrow> hit_brick_at r c g)"
  unfolding brick_collision_def first_hit_def cells_def
  using grid_ok_index[OF assms] by (intro scan_rows_find) auto

lemma cells_iff: "(r, c) \<in> set cells \<longleftrightarrow> r < BRICK_ROWS \<and> c < BRICK_COLS"
  by (force simp: cells_def)

lemma first_hit_SomeD:
  "first_hit g = Some (r, c) \<Longrightarrow>
     r < BRICK_ROWS \<and> c < BRICK_COLS \<and> bricks g ! r ! c \<noteq> 0 \<and>
     colliderect (ball g) (brick_rect r c)"
  unfolding first_hit_def cells_def
  by (auto simp: find_Some_iff alive_hit_def dest!: nth_mem)

lemma dead_row_kill:
  assumes "c < length xs" "xs ! c \<noteq> (0::int)"
  shows "length (filter (\<lambda>b. b = 0) (xs[c := 0])) = length (filter (\<lambda>b. b = 0) xs) + 1"
proof -
  have xs: "xs = take c xs @ xs ! c # drop (Suc c) xs"
    using assms(1) by (rule id_take_nth_drop)
  have "length (filter (\<lambda>b. b = 0) (take c xs @ xs ! c # drop (Suc c) xs)) + 1 =
        length (filter (\<lambda>b. b = 0) (take c xs @ 0 # drop (Suc c) xs))"
    using assms(2) by simp
  then show ?thesis
    using xs upd_conv_take_nth_drop[OF assms(1), of 0] by simp
qed

lemma dead_count_kill:
  assumes "r < length bs" "c < length (bs ! r)" "bs ! r ! c \<noteq> 0"
  shows "dead_count (bs[r := (bs ! r)[c := 0]]) = dead_count bs + 1"
proof -
  have bs: "bs = take r bs @ bs ! r # drop (Suc r) bs"
    using assms(1) by (rule id_take_nth_drop)
  have "dead_count (take r bs @ (bs ! r)[c := 0] # drop (Suc r) bs) =
        dead_count (take r bs @ bs ! r # drop (Suc r) bs) + 1"
    using dead_row_kill[OF assms(2,3)] by (simp add: dead_count_def)
  then show ?thesis
    using bs upd_conv_take_nth_drop[OF assms(1), of "(bs ! r)[c := 0]"] by simp
qed

lemma hit_brick_at_frame:
  "bricks (hit_brick_at r c g) = (bricks g)[r := (bricks g ! r)[c := 0]]"
  "score (hit_brick_at r c g) = score g + 10"
  "lives (hit_brick_at r c g) = lives g"
  "paddle (hit_brick_at r c g) = paddle g"
  "paused (hit_brick_at r c g) = paused g"
  "rw (ball (hit_brick_at r c g)) = rw (ball g)"
  "rh (ball (hit_brick_at r c g)) = rh (ball g)"
  by (auto simp add: hit_brick_at_def Let_def split: prod.splits dest: reflect_from_brick_size)

lemma hit_brick_at_flags:
  "won (hit_brick_at r c g) \<longleftrightarrow> all_bricks_cleared (bricks (hit_brick_at r c g)) \<or> won g"
  "is_win (hit_brick_at r c g) \<longrightarrow> game_over (hit_brick_at r c g) \<or> is_win g"
  "\<not> game_over (hit_brick_at r c g) \<longrightarrow> \<not> game_over g"
  by (auto simp: hit_brick_at_def Let_def won_def split: prod.splits)

text \<open>
  Claim C2. The brick phase of a step resolves at most one brick. On a full grid it raises
  nothing; when no live brick overlaps the ball it leaves the state alone; otherwise the
  first live brick in row-major order that overlaps the ball is the one hit: that cell
  alone is set to 0, the score grows by exactly 10, one more brick is dead, and no other
  cell is looked at, even when the ball overlaps further live bricks.
\<close>

theorem brick_collision_first_hit:
  assumes "grid_ok (bricks g)"
  shows "\<exists>g'. brick_collision g = Inr g' \<and>
           (case first_hit g of
              None \<Rightarrow> g' = g
            | Some (r, c) \<Rightarrow>
                g' = hit_brick_at r c g \<and>
                bricks g' = (bricks g)[r := (bricks g ! r)[c := 0]] \<and>
                score g' = score g + 10 \<and>
                dead_count (bricks g') = dead_count (bricks g) + 1)"
proof (cases "first_hit g")
  case None
  then show ?thesis by (simp add: brick_collision_eq[OF assms])
next
  case (Some rc)
  obtain r c where rc: "rc = (r, c)" by (cases rc)
  from first_hit_SomeD[of g r c] Some rc grid_ok_index[OF assms, of r]
  have "r < length (bricks g)" "c < length (bricks g ! r)" "bricks g ! r ! c \<noteq> 0"
    by auto
  from dead_count_kill[OF this] Some rc show ?thesis
    by (simp add: brick_collision_eq[OF assms] hit_brick_at_frame)
qed

text \<open>
  The ball of \<open>two_bricks\<close> overlaps bricks (0, 0) and (0, 1), both alive. The scan kills
  (0, 0) only and the score becomes 10.
\<close>

theorem brick_collision_first_hit_witness:
  "colliderect (ball two_bricks) (brick_rect 0 0) \<and>
   colliderect (ball two_bricks) (brick_rect 0 1) \<and>
   (\<exists>g'. brick_collision two_bricks = Inr g' \<and>
      bricks g' = (replicate 10 1)[0 := 0] # replicate 5 (replicate 10 1) \<and>
      score g' = 10 \<and> dead_count (bricks g') = 1)"
proof -
  have ok: "grid_ok (bricks two_bricks)"
    by (simp add: two_bricks_def grid_ok_reset_bricks)
  have fh: "first_hit two_bricks = Some (0, 0)"
    by (simp add: first_hit_def cells_def two_bricks_def alive_hit_def reset_bricks_def
        consts_defs upt_rec[of 0] colliderect_def brick_rect_def rect_defs)
  have dc: "dead_count (bricks two_bricks) = 0"
    by (simp add: two_bricks_def dead_count_def reset_bricks_def consts_defs)
  have bs: "bricks two_bricks = replicate 10 1 # replicate 5 (replicate 10 1)"
    by (simp add: two_bricks_def reset_bricks_def consts_defs eval_nat_numeral)
  have sc: "score two_bricks = 0"
    by (simp add: two_bricks_def)
  show ?thesis
    using brick_collision_first_hit [OF ok] fh dc sc
    by (auto simp add: bs)
       (simp_all add: two_bricks_def colliderect_def brick_rect_def rect_defs consts_defs)
qed

section \<open>What each phase leaves alone\<close>

lemma move_ball_frame:
  "bricks (move_ball g) = bricks g" "paddle (move_ball g) = paddle g"
  "vel (move_ball g) = vel g" "lives (move_ball g) = lives g"
  "score (move_ball g) = score g" "paused (move_ball g) = paused g"
  "game_over (move_ball g) = game_over g" "is_win (move_ball g) = is_win g"
  "rw (ball (move_ball g)) = rw (ball g)" "rh (ball (move_ball g)) = rh (ball g)"
  by (simp_all add: move_ball_def)

lemma walls_frame:
  "bricks (walls g) = bricks g" "paddle (walls g) = paddle g"
  "lives (walls g) = lives g"
  "score (walls g) = score g" "paused (walls g) = paused g"
  "game_over (walls g) = game_over g" "is_win (walls g) = is_win g"
  "rw (ball (walls g)) = rw (ball g)" "rh (ball (walls g)) = rh (ball g)"
  by (simp_all add: walls_def Let_def rect_defs)

lemma lose_life_frame:
  "bricks (lose_life u1 u2 g) = bricks g" "score (lose_life u1 u2 g) = score g"
  "paused (lose_life u1 u2 g) = paused g"
  by (simp_all add: lose_life_def Let_def split: prod.splits)

lemma mouse_control_frame:
  "bricks (mouse_control mx g) = bricks g" "ball (mouse_control mx g) = ball g"
  "vel (mouse_control mx g) = vel g" "lives (mouse_control mx g) = lives g"
  "score (mouse_control mx g) = score g" "paused (mouse_control mx g) = paused g"
  "game_over (mouse_control mx g) = game_over g" "is_win (mouse_control mx g) = is_win g"
  by (simp_all add: mouse_control_def Let_def)

lemma paddle_collision_frame:
  assumes "shapes_ok g"
  shows "\<exists>g'. paddle_collision g = Inr g' \<and> bricks g' = bricks g \<and> paddle g' = paddle g \<and>
           lives g' = lives g \<and> score g' = score g \<and> paused g' = paused g \<and>
           game_over g' = game_over g \<and> is_win g' = is_win g \<and>
           rx (ball g') = rx (ball g) \<and> rw (ball g') = rw (ball g) \<and> rh (ball g') = rh (ball g)"
  using assms
  by (simp add: paddle_collision_def shapes_ok_def PADDLE_W_def Let_def rect_defs)

lemma paddle_collision_miss:
  "\<not> colliderect (ball g) (paddle g) \<Longrightarrow> paddle_collision g = Inr g"
  by (simp add: paddle_collision_def)

subsection \<open>Sizes and the shape of the grid are kept, and a step raises nothing\<close>

lemma shapes_ok_move_ball: "shapes_ok g \<Longrightarrow> shapes_ok (move_ball g)"
  by (simp add: shapes_ok_def move_ball_frame)

lemma shapes_ok_walls: "shapes_ok g \<Longrightarrow> shapes_ok (walls g)"
  by (simp add: shapes_ok_def walls_frame)

lemma shapes_ok_lose_life: "shapes_ok g \<Longrightarrow> shapes_ok (lose_life u1 u2 g)"
  by (auto simp: shapes_ok_def lose_life_def Let_def reset_ball_paddle_def Rect_def consts_defs)

lemma shapes_ok_paddle_collision:
  assumes "shapes_ok g" "paddle_collision g = Inr g'"
  shows "shapes_ok g'"
  using paddle_collision_frame[OF assms(1)] assms by (auto simp: shapes_ok_def)

lemma shapes_ok_hit_brick_at: "shapes_ok g \<Longrightarrow> shapes_ok (hit_brick_at r c g)"
  by (simp add: shapes_ok_def hit_brick_at_frame grid_ok_kill)

lemma shapes_ok_brick_collision:
  assumes "shapes_ok g" "brick_collision g = Inr g'"
  shows "shapes_ok g'"
proof -
  from assms(1) have "grid_ok (bricks g)" by (simp add: shapes_ok_def)
  from brick_collision_eq[OF this] assms(2)
  have "g' = (case first_hit g of None \<Rightarrow> g | Some (r, c) \<Rightarrow> hit_brick_at r c g)"
    by simp
  with assms(1) show ?thesis
    by (auto simp: shapes_ok_hit_brick_at split: option.splits)
qed

lemma fixed_step_total:
  assumes "shapes_ok g"
  shows "\<exists>g'. fixed_step u1 u2 g = Inr g'"
proof (cases "\<not> paused g \<and> \<not> game_over g")
  case True
  let ?g0 = "lose_life u1 u2 (walls (move_ball g))"
  have s0: "shapes_ok ?g0"
    by (intro shapes_ok_lose_life shapes_ok_walls shapes_ok_move_ball assms)
  then obtain g1 where g1: "paddle_collision ?g0 = Inr g1"
    using paddle_collision_frame by blast
  with s0 have "shapes_ok g1" by (rule shapes_ok_paddle_collision)
  then have "\<exists>g'. brick_collision g1 = Inr g'"
    using brick_collision_eq[of g1] by (simp add: shapes_ok_def)
  with True g1 show ?thesis by (simp add: fixed_step_def)
next
  case False
  then show ?thesis by (auto simp: fixed_step_def)
qed

lemma shapes_ok_fixed_step:
  assumes "shapes_ok g" "fixed_step u1 u2 g = Inr g'"
  shows "shapes_ok g'"
proof (cases "\<not> paused g \<and> \<not> game_over g")
  case True
  let ?g0 = "lose_life u1 u2 (walls (move_ball g))"
  have s0: "shapes_ok ?g0"
    by (intro shapes_ok_lose_life shapes_ok_walls shapes_ok_move_ball assms)
  from True assms(2) obtain g1 where g1: "paddle_collision ?g0 = Inr g1"
    and g': "brick_collision g1 = Inr g'"
    by (auto simp: fixed_step_def split: sum.splits)
  from s0 g1 have "shapes_ok g1" by (rule shapes_ok_paddle_collision)
  then show ?thesis using g' by (rule shapes_ok_brick_collision)
next
  case False
  with assms show ?thesis by (auto simp: fixed_step_def)
qed

lemma shapes_ok_new_game: "shapes_ok (new_game u1 u2)"
  by (simp add: shapes_ok_def new_game_def reset_ball_paddle_def Rect_def grid_ok_reset_bricks)

lemma shapes_ok_key_r: "shapes_ok (key_r u1 u2 g)"
  by (simp add: shapes_ok_def key_r_def reset_ball_paddle_def Rect_def grid_ok_reset_bricks)

lemma shapes_ok_key_p: "shapes_ok g \<Longrightarrow> shapes_ok (key_p g)"
  by (simp add: shapes_ok_def key_p_def)

lemma shapes_ok_mouse_control: "shapes_ok g \<Longrightarrow> shapes_ok (mouse_control mx g)"
  by (simp add: shapes_ok_def mouse_control_def Let_def rect_defs)

lemma reachable_imp_rounded: "reachable g \<Longrightarrow> reachable_rounded g"
  by (induction rule: reachable.induct) (auto intro: reachable_rounded.intros)

lemma shapes_ok_vel: "shapes_ok (g\<lparr>vel := v\<rparr>) = shapes_ok g"
  by (simp add: shapes_ok_def)

lemma reachable_rounded_shapes_ok: "reachable_rounded g \<Longrightarrow> shapes_ok g"
  by (induction rule: reachable_rounded.induct)
     (simp_all add: shapes_ok_new_game shapes_ok_key_r shapes_ok_key_p shapes_ok_mouse_control
        shapes_ok_fixed_step shapes_ok_vel)

lemma reachable_shapes_ok: "reachable g \<Longrightarrow> shapes_ok g"
  by (intro reachable_rounded_shapes_ok reachable_imp_rounded)

section \<open>Below the bricks\<close>

text \<open>
  No brick reaches below y = 242. A ball whose top is at or below that line overlaps none,
  and so does the ball after a life is lost: it is either under the window or back at
  y = 360.
\<close>

lemma brick_rect_bottom: "r < BRICK_ROWS \<Longrightarrow> rect_bottom (brick_rect r c) \<le> 242"
  by (simp add: brick_rect_def rect_defs consts_defs)

lemma first_hit_below:
  assumes "242 \<le> rect_top (ball g)"
  shows "first_hit g = None"
proof -
  have "\<not> alive_hit g rc" if "rc \<in> set cells" for rc
  proof -
    obtain r c where rc: "rc = (r, c)" by (cases rc)
    with that have "r < BRICK_ROWS" by (simp add: cells_iff)
    from brick_rect_bottom[OF this, of c] assms show ?thesis
      by (simp add: rc alive_hit_def colliderect_def)
  qed
  then show ?thesis by (simp add: first_hit_def find_None_iff)
qed

lemma brick_collision_below:
  "grid_ok (bricks g) \<Longrightarrow> 242 \<le> rect_top (ball g) \<Longrightarrow> brick_collision g = Inr g"
  by (simp add: brick_collision_eq first_hit_below)

lemma lose_life_below:
  assumes "shapes_ok g" "WIN_H < rect_top (ball g)"
  shows "\<not> colliderect (ball (lose_life u1 u2 g)) (paddle (lose_life u1 u2 g))"
    and "242 \<le> rect_top (ball (lose_life u1 u2 g))"
  using assms
  by (auto simp: lose_life_def Let_def reset_ball_paddle_def shapes_ok_def colliderect_def
      rect_defs consts_defs)

lemma life_loss_step:
  assumes "shapes_ok g" "\<not> paused g" "\<not> game_over g" "life_lost g"
  shows "fixed_step u1 u2 g = Inr (lose_life u1 u2 (walls (move_ball g)))"
proof -
  let ?g0 = "walls (move_ball g)"
  have s0: "shapes_ok ?g0"
    by (intro shapes_ok_walls shapes_ok_move_ball assms)
  have low: "WIN_H < rect_top (ball ?g0)"
    using assms(4) by (simp add: life_lost_def)
  have "paddle_collision (lose_life u1 u2 ?g0) = Inr (lose_life u1 u2 ?g0)"
    using lose_life_below(1)[OF s0 low] by (rule paddle_collision_miss)
  moreover have "brick_collision (lose_life u1 u2 ?g0) = Inr (lose_life u1 u2 ?g0)"
    using shapes_ok_lose_life[OF s0, of u1 u2] lose_life_below(2)[OF s0 low]
    by (intro brick_collision_below) (simp_all add: shapes_ok_def)
  ultimately show ?thesis
    using assms(2,3) by (simp add: fixed_step_def)
qed


section \<open>Invariants of every run\<close>

lemma all_bricks_cleared_iff:
  "all_bricks_cleared bs \<longleftrightarrow> (\<forall>row\<in>set bs. \<forall>b\<in>set row. b = 0)"
  by (induction bs rule: all_bricks_cleared.induct) auto

lemma all_dead_cleared: "all_bricks_cleared bs \<longleftrightarrow> all_dead bs"
  by (simp add: all_bricks_cleared_iff all_dead_def list_all_iff)

lemma game_inv_code:
  "game_inv g \<longleftrightarrow>
     shapes_ok g \<and> (\<not> game_over g \<longrightarrow> 1 \<le> lives g) \<and> (is_win g \<longrightarrow> game_over g) \<and>
     (won g \<longleftrightarrow> all_bricks_cleared (bricks g)) \<and>
     score g = 10 * int (dead_count (bricks g))"
  by (simp add: game_inv_def all_dead_cleared)

lemma grid_cells: "grid_ok bs \<Longrightarrow> length (concat bs) = BRICK_ROWS * BRICK_COLS"
proof -
  assume ok: "grid_ok bs"
  then have "map length bs = map (\<lambda>row. BRICK_COLS) bs"
    by (simp add: grid_ok_def list_all_iff)
  also have "\<dots> = replicate (length bs) BRICK_COLS"
    by (rule map_replicate_const)
  finally have "sum_list (map length bs) = length bs * BRICK_COLS"
    by (simp add: sum_list_replicate)
  with ok show ?thesis
    by (simp add: length_concat grid_ok_def)
qed

lemma all_dead_count:
  "grid_ok bs \<Longrightarrow> all_dead bs \<longleftrightarrow> dead_count bs = BRICK_ROWS * BRICK_COLS"
proof -
  assume ok: "grid_ok bs"
  let ?xs = "concat bs"
  have "all_dead bs \<longleftrightarrow> (\<forall>b\<in>set ?xs. b = 0)"
    by (auto simp: all_dead_def list_all_iff)
  also have "\<dots> \<longleftrightarrow> filter (\<lambda>b. \<not> b = 0) ?xs = []"
    by (simp add: filter_empty_conv)
  also have "\<dots> \<longleftrightarrow> length (filter (\<lambda>b. b = 0) ?xs) = length ?xs"
    using sum_length_filter_compl[of "\<lambda>b. b = 0" ?xs] by auto
  finally show ?thesis
    by (simp add: dead_count_def grid_cells[OF ok])
qed

lemma reset_bricks_alive:
  "\<not> all_bricks_cleared reset_bricks" "dead_count reset_bricks = 0"
  by (simp_all add: all_bricks_cleared_iff reset_bricks_def dead_count_def consts_defs)

lemma cleared_nth:
  "all_bricks_cleared bs \<Longrightarrow> r < length bs \<Longrightarrow> c < length (bs ! r) \<Longrightarrow> bs ! r ! c = 0"
  by (meson all_bricks_cleared_iff nth_mem)

lemma game_inv_new_game: "game_inv (new_game u1 u2)"
  using shapes_ok_new_game[of u1 u2]
  by (simp add: game_inv_code won_def new_game_def reset_bricks_alive START_LIVES_def
      split: prod.splits)

lemma game_inv_key_r: "game_inv (key_r u1 u2 g)"
  using shapes_ok_key_r[of u1 u2 g]
  by (simp add: game_inv_code won_def key_r_def reset_bricks_alive START_LIVES_def
      split: prod.splits)

lemma game_inv_key_p: "game_inv g \<Longrightarrow> game_inv (key_p g)"
  using shapes_ok_key_p[of g] by (simp add: game_inv_code won_def key_p_def)

lemma game_inv_mouse_control: "game_inv g \<Longrightarrow> game_inv (mouse_control mx g)"
  using shapes_ok_mouse_control[of g mx]
  by (simp add: game_inv_code won_def mouse_control_frame)

lemma game_inv_move_ball: "game_inv g \<Longrightarrow> game_inv (move_ball g)"
  using shapes_ok_move_ball[of g] by (simp add: game_inv_code won_def move_ball_frame)

lemma game_inv_walls: "game_inv g \<Longrightarrow> game_inv (walls g)"
  using shapes_ok_walls[of g] by (simp add: game_inv_code won_def walls_frame)

lemma game_inv_lose_life: "game_inv g \<Longrightarrow> \<not> game_over g \<Longrightarrow> game_inv (lose_life u1 u2 g)"
  using shapes_ok_lose_life[of g u1 u2]
  by (auto simp: game_inv_code won_def lose_life_frame)
     (auto simp: lose_life_def Let_def split: prod.splits if_splits)

lemma game_inv_paddle_collision:
  assumes "game_inv g" "paddle_collision g = Inr g'"
  shows "game_inv g'"
proof -
  from assms(1) have s: "shapes_ok g" by (simp add: game_inv_code)
  from paddle_collision_frame[OF s] shapes_ok_paddle_collision[OF s assms(2)] assms
  show ?thesis by (auto simp: game_inv_code won_def)
qed

lemma game_inv_hit_brick_at:
  assumes "game_inv g" "first_hit g = Some (r, c)"
  shows "game_inv (hit_brick_at r c g)"
proof -
  from assms(1) have s: "shapes_ok g" by (simp add: game_inv_code)
  then have ok: "grid_ok (bricks g)" by (simp add: shapes_ok_def)
  from first_hit_SomeD[OF assms(2)] grid_ok_index[OF ok, of r]
  have rc: "r < length (bricks g)" "c < length (bricks g ! r)" "bricks g ! r ! c \<noteq> 0"
    by auto
  then have nc: "\<not> all_bricks_cleared (bricks g)"
    using cleared_nth by blast
  with assms(1) have nw: "\<not> won g" "\<not> is_win g \<or> game_over g" by (auto simp: game_inv_code)
  have d: "dead_count (bricks (hit_brick_at r c g)) = dead_count (bricks g) + 1"
    using dead_count_kill[OF rc] by (simp add: hit_brick_at_frame)
  show ?thesis
    unfolding game_inv_code
    using shapes_ok_hit_brick_at[OF s, of r c] hit_brick_at_flags[of r c g] assms(1) nw d
    by (auto simp: game_inv_code hit_brick_at_frame won_def)
qed

lemma game_inv_brick_collision:
  assumes "game_inv g" "brick_collision g = Inr g'"
  shows "game_inv g'"
proof -
  from assms(1) have "grid_ok (bricks g)" by (simp add: game_inv_code shapes_ok_def)
  from brick_collision_eq[OF this] assms(2)
  have "g' = (case first_hit g of None \<Rightarrow> g | Some (r, c) \<Rightarrow> hit_brick_at r c g)"
    by simp
  with assms(1) show ?thesis
    by (auto simp: game_inv_hit_brick_at split: option.splits)
qed

lemma game_inv_fixed_step:
  assumes "game_inv g" "fixed_step u1 u2 g = Inr g'"
  shows "game_inv g'"
proof (cases "\<not> paused g \<and> \<not> game_over g")
  case True
  let ?g0 = "lose_life u1 u2 (walls (move_ball g))"
  have "\<not> game_over (walls (move_ball g))"
    using True by (simp add: walls_frame move_ball_frame)
  then have i0: "game_inv ?g0"
    by (intro game_inv_lose_life game_inv_walls game_inv_move_ball assms)
  from True assms(2) obtain g1 where g1: "paddle_collision ?g0 = Inr g1"
    and g': "brick_collision g1 = Inr g'"
    by (auto simp: fixed_step_def split: sum.splits)
  from i0 g1 have "game_inv g1" by (rule game_inv_paddle_collision)
  then show ?thesis using g' by (rule game_inv_brick_collision)
next
  case False
  with assms show ?thesis by (auto simp: fixed_step_def)
qed

lemma game_inv_vel: "game_inv (g\<lparr>vel := v\<rparr>) = game_inv g"
  by (simp add: game_inv_code shapes_ok_def won_def)

lemma reachable_rounded_game_inv: "reachable_rounded g \<Longrightarrow> game_inv g"
  by (induction rule: reachable_rounded.induct)
     (simp_all add: game_inv_new_game game_inv_key_r game_inv_key_p game_inv_mouse_control
        game_inv_fixed_step game_inv_vel)

lemma reachable_game_inv: "reachable g \<Longrightarrow> game_inv g"
  by (intro reachable_rounded_game_inv reachable_imp_rounded)

subsection \<open>The ball starts every step inside the walls\<close>

lemma py_int_neg: "py_int f < 0 \<Longrightarrow> f < 0"
  by (auto simp: py_int_def split: if_splits)

lemma py_int_pos: "0 < py_int f \<Longrightarrow> 0 < f"
  by (auto simp: py_int_def split: if_splits)

lemma walls_ball_in:
  assumes "rw (ball g) = BALL_SIZE"
  shows "ball_in (walls g)"
  using assms by (simp add: ball_in_def walls_def Let_def rect_defs consts_defs)

lemma ball_in_lose_life: "ball_in g \<Longrightarrow> ball_in (lose_life u1 u2 g)"
  by (auto simp: ball_in_def lose_life_def Let_def reset_ball_paddle_def rect_defs consts_defs)

lemma ball_in_paddle_collision:
  assumes "shapes_ok g" "ball_in g" "paddle_collision g = Inr g'"
  shows "ball_in g'"
  using assms
  by (auto simp: paddle_collision_def ball_in_def shapes_ok_def Let_def rect_defs consts_defs
      split: if_splits)

lemma ball_in_hit_brick_at:
  assumes "shapes_ok g" "ball_in g" "r < BRICK_ROWS" "c < BRICK_COLS"
  shows "ball_in (hit_brick_at r c g)"
proof -
  let ?b = "ball g" and ?rb = "brick_rect r c"
  have w: "rw ?b = 10" and h: "rh ?b = 10"
    using assms(1) by (simp_all add: shapes_ok_def BALL_SIZE_def)
  have x: "0 \<le> rx ?b" "rx ?b \<le> 790" and y: "0 \<le> ry ?b"
    using assms(2) w by (simp_all add: ball_in_def rect_defs WIN_W_def)
  have c: "int c \<le> 9" and r: "int r \<le> 5"
    using assms(3,4) by (simp_all add: consts_defs)
  have b: "ball (hit_brick_at r c g) = push_out (min_side ?b ?rb) ?b ?rb"
    by (simp add: hit_brick_at_def reflect_from_brick_side Let_def)
  show ?thesis
  proof (cases "min_side ?b ?rb")
    case SLeft
    from min_side_least[of ?b ?rb STop] min_side_least[of ?b ?rb SBottom] SLeft
    have "2 * (rect_right ?rb - rx ?b) \<le> 32"
      by (simp add: rect_defs brick_rect_def w h consts_defs)
    with x have c8: "int c \<le> 8"
      by (simp add: rect_defs brick_rect_def consts_defs)
    from b SLeft have "ball (hit_brick_at r c g) = set_left (rect_right ?rb + 1) ?b"
      by simp
    with y c8 show ?thesis
      by (simp add: ball_in_def rect_defs brick_rect_def w consts_defs)
  next
    case SRight
    with b have "ball (hit_brick_at r c g) = set_right (rect_left ?rb - 1) ?b"
      by simp
    with c y show ?thesis
      by (simp add: ball_in_def rect_defs brick_rect_def w consts_defs)
  next
    case STop
    with b have "ball (hit_brick_at r c g) = set_top (rect_bottom ?rb + 1) ?b"
      by simp
    with x show ?thesis
      by (simp add: ball_in_def rect_defs brick_rect_def w consts_defs)
  next
    case SBottom
    with b have "ball (hit_brick_at r c g) = set_bottom (rect_top ?rb - 1) ?b"
      by simp
    with x show ?thesis
      by (simp add: ball_in_def rect_defs brick_rect_def w h consts_defs)
  qed
qed

lemma ball_in_brick_collision:
  assumes "shapes_ok g" "ball_in g" "brick_collision g = Inr g'"
  shows "ball_in g'"
proof -
  from assms(1) have "grid_ok (bricks g)" by (simp add: shapes_ok_def)
  from brick_collision_eq[OF this] assms(3)
  have "g' = (case first_hit g of None \<Rightarrow> g | Some (r, c) \<Rightarrow> hit_brick_at r c g)"
    by simp
  with assms(1,2) show ?thesis
    by (auto simp: ball_in_hit_brick_at split: option.splits dest!: first_hit_SomeD)
qed

lemma ball_in_fixed_step:
  assumes "shapes_ok g" "ball_in g" "fixed_step u1 u2 g = Inr g'"
  shows "ball_in g'"
proof (cases "\<not> paused g \<and> \<not> game_over g")
  case True
  let ?g0 = "lose_life u1 u2 (walls (move_ball g))"
  have s0: "shapes_ok ?g0"
    by (intro shapes_ok_lose_life shapes_ok_walls shapes_ok_move_ball assms)
  have "rw (ball (move_ball g)) = BALL_SIZE"
    using assms(1) by (simp add: move_ball_frame shapes_ok_def)
  then have b0: "ball_in ?g0"
    by (intro ball_in_lose_life walls_ball_in)
  from True assms(3) obtain g1 where g1: "paddle_collision ?g0 = Inr g1"
    and g': "brick_collision g1 = Inr g'"
    by (auto simp: fixed_step_def split: sum.splits)
  from s0 g1 have "shapes_ok g1" by (rule shapes_ok_paddle_collision)
  moreover from s0 b0 g1 have "ball_in g1" by (rule ball_in_paddle_collision)
  ultimately show ?thesis using g' by (rule ball_in_brick_collision)
next
  case False
  with assms show ?thesis by (auto simp: fixed_step_def)
qed

lemma reachable_rounded_ball_in: "reachable_rounded g \<Longrightarrow> ball_in g"
proof (induction rule: reachable_rounded.induct)
  case (r_start u1 u2)
  show ?case
    by (simp add: ball_in_def new_game_def reset_ball_paddle_def rect_defs consts_defs)
next
  case (r_press_p g)
  then show ?case by (simp add: ball_in_def key_p_def)
next
  case (r_press_r g u1 u2)
  show ?case
    by (simp add: ball_in_def key_r_def reset_ball_paddle_def rect_defs consts_defs)
next
  case (r_mouse g mx)
  then show ?case by (simp add: ball_in_def mouse_control_frame)
next
  case (r_step g u1 u2 g')
  from reachable_rounded_shapes_ok[OF r_step.hyps(1)] r_step.IH r_step.hyps(4) show ?case
    by (rule ball_in_fixed_step)
next
  case (r_round g v)
  then show ?case by (simp add: ball_in_def)
qed

lemma reachable_ball_in: "reachable g \<Longrightarrow> ball_in g"
  by (intro reachable_rounded_ball_in reachable_imp_rounded)

section \<open>A run: up to the first brick and down past the paddle\<close>

text \<open>
  The draws 1/2 and 1/2 launch the ball straight up from (395, 360). It rises 5 units a
  step, breaks brick (5, 4) in the 25th step and turns. With the paddle moved to the left
  edge it then falls 5 units a step until it is under the window.
\<close>

lemma launch_vel_half: "launch_vel (1 / 2) (1 / 2) = (0, - 320)"
  by (simp add: launch_vel_def launch_angle_def dir_sign_def BALL_SPEED_def)

lemma draw_half: "draw (1 / 2)"
  by (simp add: draw_def)

lemma new_game_half: "new_game (1 / 2) (1 / 2) = rising 360"
  by (simp add: new_game_def reset_ball_paddle_def launch_vel_half rising_def consts_defs)

lemma rising_move: "5 < y \<Longrightarrow> walls (move_ball (rising y)) = rising (y - 5)"
  by (simp add: rising_def move_ball_def walls_def Let_def py_int_def rect_defs consts_defs)

lemma rising_step:
  assumes "247 \<le> y" "y \<le> 360"
  shows "fixed_step u1 u2 (rising y) = Inr (rising (y - 5))"
proof -
  have m: "walls (move_ball (rising y)) = rising (y - 5)"
    using assms rising_move[of y] by simp
  have l: "lose_life u1 u2 (rising (y - 5)) = rising (y - 5)"
    using assms by (simp add: lose_life_def rising_def rect_defs consts_defs)
  have p: "paddle_collision (rising (y - 5)) = Inr (rising (y - 5))"
    using assms by (intro paddle_collision_miss) (simp add: rising_def colliderect_def rect_defs)
  have b: "brick_collision (rising (y - 5)) = Inr (rising (y - 5))"
    using assms by (intro brick_collision_below) (simp_all add: rising_def grid_ok_reset_bricks rect_defs)
  show ?thesis
    by (simp add: fixed_step_def m l p b) (simp add: rising_def)
qed

lemma reachable_rising: "k \<le> 23 \<Longrightarrow> reachable (rising (360 - 5 * int k))"
proof (induction k)
  case 0
  show ?case using reachable.start[OF draw_half draw_half] by (simp add: new_game_half)
next
  case (Suc k)
  then have r: "reachable (rising (360 - 5 * int k))" by simp
  have "fixed_step (1 / 2) (1 / 2) (rising (360 - 5 * int k)) = Inr (rising (360 - 5 * int k - 5))"
    using Suc.prems by (intro rising_step) simp_all
  from reachable.step[OF r draw_half draw_half this] show ?case
    by (simp add: algebra_simps)
qed

lemma cols_eval: "[0..<BRICK_COLS] = [0, 1, 2, 3, 4, 5, 6, 7, 8, 9]"
  by (simp add: BRICK_COLS_def upt_rec)

lemma rows_eval: "[0..<BRICK_ROWS] = [0, 1, 2, 3, 4, 5]"
  by (simp add: BRICK_ROWS_def upt_rec)

lemma first_hit_240: "first_hit (rising 245\<lparr>ball := Rect 395 240 10 10\<rparr>) = Some (5, 4)"
  unfolding first_hit_def cells_def cols_eval rows_eval
  by (simp add: alive_hit_def rising_def reset_bricks_def
        colliderect_def brick_rect_def rect_defs consts_defs)

lemma first_break_step: "fixed_step u1 u2 (rising 245) = Inr first_break"
proof -
  let ?g = "rising 245\<lparr>ball := Rect 395 240 10 10\<rparr>"
  have m: "walls (move_ball (rising 245)) = rising 240"
    using rising_move[of 245] by simp
  have r: "rising 240 = ?g" by (simp add: rising_def)
  have l: "lose_life u1 u2 ?g = ?g"
    by (simp add: lose_life_def rising_def rect_defs consts_defs)
  have p: "paddle_collision ?g = Inr ?g"
    by (intro paddle_collision_miss) (simp add: rising_def colliderect_def rect_defs)
  have ok: "grid_ok (bricks ?g)" by (simp add: rising_def grid_ok_reset_bricks)
  have "(reset_bricks[5 := (reset_bricks ! 5)[4 := 0]]) ! 0 ! 0 \<noteq> 0"
    by (simp add: reset_bricks_def consts_defs)
  moreover have "0 < length (reset_bricks[5 := (reset_bricks ! 5)[4 := 0]])"
    "0 < length ((reset_bricks[5 := (reset_bricks ! 5)[4 := 0]]) ! 0)"
    by (simp_all add: reset_bricks_def consts_defs)
  ultimately have nc: "\<not> all_bricks_cleared (reset_bricks[5 := (reset_bricks ! 5)[4 := 0]])"
    using cleared_nth by blast
  have h: "hit_brick_at 5 4 ?g = first_break"
    by (simp add: hit_brick_at_def reflect_from_brick_side min_side_def sides_def Let_def
        rising_def first_break_def nc)
       (simp add: brick_rect_def rect_defs consts_defs)
  show ?thesis
    by (simp add: fixed_step_def m r l p brick_collision_eq[OF ok] first_hit_240 h)
       (simp add: rising_def)
qed

lemma reachable_first_break: "reachable first_break"
proof -
  have "reachable (rising 245)"
    using reachable_rising[of 23] by simp
  then show ?thesis
    using draw_half draw_half first_break_step by (rule reachable.step)
qed

lemma mouse_first_break: "mouse_control 50 first_break = dropping 243"
  by (simp add: mouse_control_def first_break_def dropping_def Let_def rect_defs consts_defs)

lemma dropping_step:
  assumes "243 \<le> y" "y \<le> 595"
  shows "fixed_step u1 u2 (dropping y) = Inr (dropping (y + 5))"
proof -
  have m: "walls (move_ball (dropping y)) = dropping (y + 5)"
    using assms
    by (simp add: dropping_def first_break_def move_ball_def walls_def Let_def py_int_def
        rect_defs consts_defs)
  have l: "lose_life u1 u2 (dropping (y + 5)) = dropping (y + 5)"
    using assms by (simp add: lose_life_def dropping_def rect_defs consts_defs)
  have p: "paddle_collision (dropping (y + 5)) = Inr (dropping (y + 5))"
    by (intro paddle_collision_miss) (simp add: dropping_def colliderect_def rect_defs)
  have "shapes_ok (dropping (y + 5))"
    using reachable_shapes_ok[OF reachable_first_break]
    by (simp add: shapes_ok_def dropping_def Rect_def consts_defs)
  then have b: "brick_collision (dropping (y + 5)) = Inr (dropping (y + 5))"
    using assms by (intro brick_collision_below) (simp_all add: shapes_ok_def dropping_def rect_defs)
  show ?thesis
    by (simp add: fixed_step_def m l p b) (simp add: dropping_def first_break_def)
qed

lemma reachable_dropping: "k \<le> 71 \<Longrightarrow> reachable (dropping (243 + 5 * int k))"
proof (induction k)
  case 0
  show ?case using reachable.mouse[OF reachable_first_break, of 50] by (simp add: mouse_first_break)
next
  case (Suc k)
  then have r: "reachable (dropping (243 + 5 * int k))" by simp
  have "fixed_step (1 / 2) (1 / 2) (dropping (243 + 5 * int k)) = Inr (dropping (243 + 5 * int k + 5))"
    using Suc.prems by (intro dropping_step) simp_all
  from reachable.step[OF r draw_half draw_half this] show ?case
    by (simp add: algebra_simps)
qed

lemma reachable_dropping_588: "reachable (dropping 588)"
  using reachable_dropping[of 69] by simp

lemma reachable_dropping_598: "reachable (dropping 598)"
  using reachable_dropping[of 71] by simp

section \<open>Losing a life\<close>



lemma dropping_598_facts:
  "shapes_ok (dropping 598)" "\<not> paused (dropping 598)" "\<not> game_over (dropping 598)"
  "lives (dropping 598) = 3" "life_lost (dropping 598)"
  "bricks (dropping 598) = bricks first_break" "score (dropping 598) = 10"
proof -
  show "shapes_ok (dropping 598)"
    using reachable_dropping_598 by (rule reachable_shapes_ok)
  have "walls (move_ball (dropping 598)) = dropping 603"
    by (simp add: dropping_def first_break_def move_ball_def walls_def Let_def py_int_def
        rect_defs consts_defs)
  then show "life_lost (dropping 598)"
    by (simp add: life_lost_def dropping_def rect_defs WIN_H_def)
qed (simp_all add: dropping_def first_break_def)


text \<open>
  Claim C3. A step of a running game is integration, walls, the life-loss check, the paddle
  and the bricks, in this order, and none of them raises. When the life-loss event occurs
  in a step, the grid and the score at the end of that step are those at its start: no
  brick dies and no score is given after the life is lost.
\<close>

theorem step_order:
  assumes "shapes_ok g" "\<not> paused g" "\<not> game_over g"
  shows "(\<exists>g1 g'. paddle_collision (lose_life u1 u2 (walls (move_ball g))) = Inr g1 \<and>
            brick_collision g1 = Inr g' \<and> fixed_step u1 u2 g = Inr g') \<and>
         (life_lost g \<longrightarrow>
            (\<exists>g'. fixed_step u1 u2 g = Inr g' \<and> bricks g' = bricks g \<and> score g' = score g))"
proof
  obtain g' where g': "fixed_step u1 u2 g = Inr g'"
    using fixed_step_total[OF assms(1)] by blast
  with assms(2,3) show "\<exists>g1 g'. paddle_collision (lose_life u1 u2 (walls (move_ball g))) = Inr g1 \<and>
            brick_collision g1 = Inr g' \<and> fixed_step u1 u2 g = Inr g'"
    by (auto simp: fixed_step_def split: sum.splits)
  show "life_lost g \<longrightarrow>
            (\<exists>g'. fixed_step u1 u2 g = Inr g' \<and> bricks g' = bricks g \<and> score g' = score g)"
    using life_loss_step[OF assms, of u1 u2]
    by (simp add: lose_life_frame walls_frame move_ball_frame)
qed

theorem step_order_witness:
  "reachable (dropping 598) \<and> shapes_ok (dropping 598) \<and> \<not> paused (dropping 598) \<and>
   \<not> game_over (dropping 598) \<and> life_lost (dropping 598) \<and>
   (\<exists>g'. fixed_step (1 / 2) (1 / 2) (dropping 598) = Inr g' \<and>
      bricks g' = bricks first_break \<and> score g' = 10)"
  using step_order [of "dropping 598" "1 / 2" "1 / 2"] dropping_598_facts
    reachable_dropping_598
  by auto

section \<open>Winning and the score\<close>

lemma brick_collision_score:
  assumes "grid_ok (bricks g)" "brick_collision g = Inr g'"
  shows "(score g' = score g \<and> bricks g' = bricks g) \<or>
         (score g' = score g + 10 \<and> dead_count (bricks g') = dead_count (bricks g) + 1)"
proof (cases "first_hit g")
  case None
  with assms show ?thesis by (simp add: brick_collision_eq)
next
  case (Some rc)
  obtain r c where rc: "rc = (r, c)" by (cases rc)
  from first_hit_SomeD[of g r c] Some rc grid_ok_index[OF assms(1), of r]
  have "r < length (bricks g)" "c < length (bricks g ! r)" "bricks g ! r ! c \<noteq> 0"
    by auto
  from dead_count_kill[OF this] Some rc assms show ?thesis
    by (auto simp add: brick_collision_eq hit_brick_at_frame)
qed

lemma fixed_step_score:
  assumes "shapes_ok g" "fixed_step u1 u2 g = Inr g'"
  shows "(score g' = score g \<and> bricks g' = bricks g) \<or>
         (score g' = score g + 10 \<and> dead_count (bricks g') = dead_count (bricks g) + 1)"
proof (cases "\<not> paused g \<and> \<not> game_over g")
  case True
  let ?g0 = "lose_life u1 u2 (walls (move_ball g))"
  have s0: "shapes_ok ?g0"
    by (intro shapes_ok_lose_life shapes_ok_walls shapes_ok_move_ball assms)
  from True assms(2) obtain g1 where g1: "paddle_collision ?g0 = Inr g1"
    and g': "brick_collision g1 = Inr g'"
    by (auto simp: fixed_step_def split: sum.splits)
  from paddle_collision_frame[OF s0] g1
  have same: "bricks g1 = bricks g" "score g1 = score g"
    by (auto simp: lose_life_frame walls_frame move_ball_frame)
  from assms(1) have "grid_ok (bricks g1)" by (simp add: same shapes_ok_def)
  from brick_collision_score[OF this g'] show ?thesis by (simp add: same)
next
  case False
  with assms show ?thesis by (auto simp: fixed_step_def)
qed

text \<open>
  The last brick: one live brick at (5, 4), 59 dead, score 590, and the ball about to
  reach it. The state has all that holds of the states of a run. The step kills the brick,
  the grid is all 0 and the score 600.
\<close>

lemma last_brick_inv: "game_inv last_brick"
proof -
  let ?bs = "(replicate 6 (replicate 10 (0::int)))[5 := (replicate 10 0)[4 := 1]]"
  have d0: "dead_count (replicate 6 (replicate 10 (0::int))) = 60"
    by (simp add: dead_count_def length_concat sum_list_replicate)
  have live: "?bs ! 5 ! 4 \<noteq> 0" by simp
  have "?bs[5 := (?bs ! 5)[4 := 0]] = replicate 6 (replicate 10 0)"
    by (simp add: list_eq_iff_nth_eq nth_list_update)
  with dead_count_kill[of 5 ?bs 4] live d0 have d: "dead_count ?bs = 59"
    by simp
  have ok: "grid_ok ?bs"
    by (simp add: grid_ok_def consts_defs list_all_length nth_list_update)
  have "\<not> all_dead ?bs"
    using all_dead_count[OF ok] d by (simp add: consts_defs)
  with d ok show ?thesis
    by (simp add: game_inv_def shapes_ok_def won_def last_brick_def Rect_def consts_defs)
qed

lemma last_brick_step:
  "\<exists>g'. fixed_step u1 u2 last_brick = Inr g' \<and>
     bricks g' = replicate 6 (replicate 10 0) \<and> score g' = 600"
proof -
  let ?g = "last_brick\<lparr>ball := Rect 395 240 10 10\<rparr>"
  have m: "walls (move_ball last_brick) = ?g"
    by (simp add: last_brick_def move_ball_def walls_def Let_def py_int_def rect_defs
        consts_defs)
  have l: "lose_life u1 u2 ?g = ?g"
    by (simp add: lose_life_def last_brick_def rect_defs consts_defs)
  have p: "paddle_collision ?g = Inr ?g"
    by (intro paddle_collision_miss) (simp add: last_brick_def colliderect_def rect_defs)
  have ok: "grid_ok (bricks ?g)"
    by (simp add: last_brick_def grid_ok_def consts_defs list_all_length nth_list_update)
  have f: "first_hit ?g = Some (5, 4)"
    unfolding first_hit_def cells_def cols_eval rows_eval
    by (simp add: alive_hit_def last_brick_def colliderect_def brick_rect_def rect_defs
        consts_defs)
  have row: "(replicate 10 (0::int))[4 := 0] = replicate 10 0"
    by (simp add: list_eq_iff_nth_eq nth_list_update)
  have b: "bricks (hit_brick_at 5 4 ?g) = replicate 6 (replicate 10 0)"
    by (simp add: hit_brick_at_frame last_brick_def row list_eq_iff_nth_eq nth_list_update)
  have s: "score (hit_brick_at 5 4 ?g) = 600"
    by (simp add: hit_brick_at_frame last_brick_def)
  have "fixed_step u1 u2 last_brick = Inr (hit_brick_at 5 4 ?g)"
    by (simp add: fixed_step_def m l p brick_collision_eq[OF ok] f) (simp add: last_brick_def)
  with b s show ?thesis by blast
qed

text \<open>
  Claim C8. The game is Won exactly when every brick of the grid is dead, that is, when
  every cell of the grid is 0, which for the grid of a run means that all 60 are counted
  dead. This holds in every state a run can reach, whatever the rounding of its
  velocities, and again after any further step. It is kept by every step from a state
  that has what holds of the states of a run: the step that kills the last live brick
  ends in Won, and no step ends in Won while a brick is alive.
\<close>

theorem won_iff_all_bricks_dead:
  "(reachable_rounded g \<longrightarrow>
      (won g \<longleftrightarrow> all_dead (bricks g)) \<and>
      (all_dead (bricks g) \<longleftrightarrow> dead_count (bricks g) = BRICK_ROWS * BRICK_COLS) \<and>
      (\<forall>u1 u2 g'. fixed_step u1 u2 g = Inr g' \<longrightarrow> (won g' \<longleftrightarrow> all_dead (bricks g')))) \<and>
   (game_inv g \<and> fixed_step u1 u2 g = Inr g' \<longrightarrow>
      game_inv g' \<and> (won g' \<longleftrightarrow> all_dead (bricks g')))"
proof (intro conjI impI)
  assume r: "reachable_rounded g"
  then have i: "game_inv g" by (rule reachable_rounded_game_inv)
  then show "won g \<longleftrightarrow> all_dead (bricks g)" by (simp add: game_inv_def)
  from i have "grid_ok (bricks g)" by (simp add: game_inv_def shapes_ok_def)
  then show "all_dead (bricks g) \<longleftrightarrow> dead_count (bricks g) = BRICK_ROWS * BRICK_COLS"
    by (rule all_dead_count)
  show "\<forall>u1 u2 g'. fixed_step u1 u2 g = Inr g' \<longrightarrow> (won g' \<longleftrightarrow> all_dead (bricks g'))"
  proof (intro allI impI)
    fix u1 u2 g'
    assume "fixed_step u1 u2 g = Inr g'"
    from game_inv_fixed_step[OF i this] show "won g' \<longleftrightarrow> all_dead (bricks g')"
      by (simp add: game_inv_def)
  qed
next
  assume "game_inv g \<and> fixed_step u1 u2 g = Inr g'"
  then have i': "game_inv g'" using game_inv_fixed_step by blast
  then show "game_inv g'" .
  from i' show "won g' \<longleftrightarrow> all_dead (bricks g')" by (simp add: game_inv_def)
qed

text \<open>
  In the run above, after the first brick, the game is not Won and 59 bricks are alive.
  From the last brick the step ends in Won, with every cell 0.
\<close>

theorem won_iff_all_bricks_dead_witness:
  "reachable first_break \<and> reachable_rounded first_break \<and> \<not> won first_break \<and>
   \<not> all_dead (bricks first_break) \<and> dead_count (bricks first_break) = 1 \<and>
   game_inv last_brick \<and> \<not> won last_brick \<and>
   (\<exists>g'. fixed_step (1 / 2) (1 / 2) last_brick = Inr g' \<and> won g' \<and>
      all_dead (bricks g') \<and> bricks g' = replicate 6 (replicate 10 0))"
proof -
  have r: "reachable_rounded first_break"
    using reachable_first_break by (rule reachable_imp_rounded)
  have nw: "\<not> won first_break" "\<not> won last_brick"
    by (simp_all add: first_break_def last_brick_def won_def)
  have d: "dead_count (bricks first_break) = 1"
  proof -
    have "dead_count (reset_bricks[5 := (reset_bricks ! 5)[4 := 0]]) =
          dead_count reset_bricks + 1"
      by (intro dead_count_kill) (simp_all add: reset_bricks_def consts_defs)
    then show ?thesis by (simp add: first_break_def reset_bricks_alive)
  qed
  obtain g' where g': "fixed_step (1 / 2) (1 / 2) last_brick = Inr g'"
    and b: "bricks g' = replicate 6 (replicate 10 0)"
    using last_brick_step by blast
  have a: "all_dead (bricks g')"
    by (simp add: b all_dead_def list_all_iff)
  from won_iff_all_bricks_dead [of first_break "1 / 2" "1 / 2" first_break] r nw(1)
  have n: "\<not> all_dead (bricks first_break)" by blast
  from won_iff_all_bricks_dead [of last_brick "1 / 2" "1 / 2" g'] last_brick_inv g' a
  have w: "won g'" by blast
  from reachable_first_break r nw n d last_brick_inv g' w a b show ?thesis by blast
qed

text \<open>
  Claim C10. In every state a run can reach, whatever the rounding of its velocities, the
  score is 10 times the number of dead bricks. A fixed step either leaves score and grid alone or adds exactly 10 while exactly
  one more brick is dead; the mouse and the P key change neither; the start of the program
  and the R key give score 0 and the grid with every brick alive.
\<close>

theorem score_counts_dead_bricks:
  assumes "reachable_rounded g"
  shows "score g = 10 * int (dead_count (bricks g)) \<and>
         (\<forall>u1 u2 g'. fixed_step u1 u2 g = Inr g' \<longrightarrow>
            (score g' = score g \<and> bricks g' = bricks g) \<or>
            (score g' = score g + 10 \<and> dead_count (bricks g') = dead_count (bricks g) + 1)) \<and>
         (\<forall>mx. score (mouse_control mx g) = score g \<and> bricks (mouse_control mx g) = bricks g) \<and>
         score (key_p g) = score g \<and> bricks (key_p g) = bricks g \<and>
         (\<forall>u1 u2. score (key_r u1 u2 g) = 0 \<and> bricks (key_r u1 u2 g) = reset_bricks \<and>
            score (new_game u1 u2) = 0 \<and> bricks (new_game u1 u2) = reset_bricks) \<and>
         dead_count reset_bricks = 0"
proof -
  have i: "game_inv g" using assms by (rule reachable_rounded_game_inv)
  then have s: "shapes_ok g" by (simp add: game_inv_code)
  have "score g = 10 * int (dead_count (bricks g))"
    using i by (simp add: game_inv_code)
  moreover have "(score g' = score g \<and> bricks g' = bricks g) \<or>
            (score g' = score g + 10 \<and> dead_count (bricks g') = dead_count (bricks g) + 1)"
    if "fixed_step u1 u2 g = Inr g'" for u1 u2 g'
    using s that by (rule fixed_step_score)
  moreover have "score (key_r u1 u2 g) = 0 \<and> bricks (key_r u1 u2 g) = reset_bricks \<and>
            score (new_game u1 u2) = 0 \<and> bricks (new_game u1 u2) = reset_bricks" for u1 u2
    by (simp add: key_r_def new_game_def split: prod.splits)
  ultimately show ?thesis
    by (simp add: mouse_control_frame key_p_def reset_bricks_alive)
qed

theorem score_counts_dead_bricks_witness:
  "reachable first_break \<and> reachable_rounded first_break \<and> score first_break = 10 \<and>
   dead_count (bricks first_break) = 1"
  using score_counts_dead_bricks [OF reachable_imp_rounded [OF reachable_first_break]]
    reachable_first_break reachable_imp_rounded [OF reachable_first_break]
  by (simp add: first_break_def)

section \<open>Walls\<close>

text \<open>
  Claim C4. Take a step that starts with the ball's box inside the walls (as it is in every
  state of a run). If integration carries the box across the left edge, the walls phase
  puts its left side at 0 and negates vx; across the right edge, it puts its right side at
  the window's width and negates vx; across the top edge, it puts its top at 0 and negates
  vy. A box that reaches below the bottom edge keeps its height and its vy: no bounce.
\<close>

theorem walls_bounce:
  assumes "shapes_ok g" "ball_in g"
  shows "(rect_left (ball (move_ball g)) < 0 \<longrightarrow>
            rect_left (ball (walls (move_ball g))) = 0 \<and>
            fst (vel (walls (move_ball g))) = - fst (vel (move_ball g))) \<and>
         (WIN_W < rect_right (ball (move_ball g)) \<longrightarrow>
            rect_right (ball (walls (move_ball g))) = WIN_W \<and>
            fst (vel (walls (move_ball g))) = - fst (vel (move_ball g))) \<and>
         (rect_top (ball (move_ball g)) < 0 \<longrightarrow>
            rect_top (ball (walls (move_ball g))) = 0 \<and>
            snd (vel (walls (move_ball g))) = - snd (vel (move_ball g))) \<and>
         (WIN_H < rect_bottom (ball (move_ball g)) \<longrightarrow>
            rect_top (ball (walls (move_ball g))) = rect_top (ball (move_ball g)) \<and>
            snd (vel (walls (move_ball g))) = snd (vel (move_ball g)))"
proof -
  obtain vx vy where v: "vel g = (vx, vy)" by (cases "vel g")
  have w: "rw (ball g) = 10" and h: "rh (ball g) = 10"
    using assms(1) by (simp_all add: shapes_ok_def BALL_SIZE_def)
  have x: "0 \<le> rx (ball g)" "rx (ball g) + 10 \<le> 800" and y: "0 \<le> ry (ball g)"
    using assms(2) w by (simp_all add: ball_in_def rect_defs WIN_W_def)
  have l: "vx < 0" if "rx (ball g) + py_int (vx * DT) < 0"
  proof -
    from that x have "py_int (vx * DT) < 0" by linarith
    then have "vx * DT < 0" by (rule py_int_neg)
    then show ?thesis by (simp add: DT_def)
  qed
  have r: "0 < vx" if "800 < rx (ball g) + py_int (vx * DT) + 10"
  proof -
    from that x have "0 < py_int (vx * DT)" by linarith
    then have "0 < vx * DT" by (rule py_int_pos)
    then show ?thesis by (simp add: DT_def)
  qed
  have t: "vy < 0" if "ry (ball g) + py_int (vy * DT) < 0"
  proof -
    from that y have "py_int (vy * DT) < 0" by linarith
    then have "vy * DT < 0" by (rule py_int_neg)
    then show ?thesis by (simp add: DT_def)
  qed
  show ?thesis
    using l r t
    by (auto simp add: move_ball_def walls_def Let_def rect_defs v w h WIN_W_def WIN_H_def)
qed

lemma corner_facts: "shapes_ok corner" "ball_in corner"
  by (simp_all add: corner_def shapes_ok_def ball_in_def grid_ok_reset_bricks rect_defs consts_defs)

lemma corner_move:
  "ball (move_ball corner) = Rect (- 2) (- 1) 10 10" "vel (move_ball corner) = (- 256, - 192)"
  by (simp_all add: corner_def move_ball_def py_int_def DT_def rect_defs)

theorem walls_bounce_witness:
  "shapes_ok corner \<and> ball_in corner \<and>
   rect_left (ball (move_ball corner)) < 0 \<and> rect_top (ball (move_ball corner)) < 0 \<and>
   rect_left (ball (walls (move_ball corner))) = 0 \<and>
   rect_top (ball (walls (move_ball corner))) = 0 \<and>
   vel (walls (move_ball corner)) = (256, 192)"
  using walls_bounce [OF corner_facts] corner_facts
  by (simp add: corner_move rect_defs prod_eq_iff)

text \<open>
  The tests of the walls phase are not strict: a box whose side lies on an edge is left
  where it is and its velocity is made to point inward, which changes nothing when it
  already does.
\<close>

lemma walls_touch:
  "rect_left (ball g) = 0 \<Longrightarrow> fst (vel (walls g)) = \<bar>fst (vel g)\<bar>"
  "rect_left (ball g) = 0 \<Longrightarrow> rect_left (ball (walls g)) = 0"
  by (simp_all add: walls_def Let_def rect_defs)

subsection \<open>The bottom edge is open\<close>

text \<open>
  Against claim C6 as stated: in a run, 69 steps after the first brick, the ball's box is
  inside the window before the step and reaches below the bottom edge after integration
  and walls.
\<close>

theorem ball_below_window_counterexample:
  "reachable (dropping 588) \<and> inside_window (ball (dropping 588)) \<and>
   \<not> inside_window (ball (walls (move_ball (dropping 588))))"
proof -
  have "walls (move_ball (dropping 588)) = dropping 593"
    by (simp add: dropping_def first_break_def move_ball_def walls_def Let_def py_int_def
        rect_defs consts_defs)
  then show ?thesis
    using reachable_dropping_588
    by (simp add: inside_window_def dropping_def rect_defs consts_defs)
qed

text \<open>
  Claim C6, amended. In every fixed step, right after the walls phase the ball's box is
  inside the left, right and top edges of the window: 0 \<le> left, right \<le> window width,
  0 \<le> top. Nothing bounds its bottom edge.
\<close>

theorem walls_keep_ball_inside:
  assumes "shapes_ok g"
  shows "0 \<le> rect_left (ball (walls (move_ball g))) \<and>
         rect_right (ball (walls (move_ball g))) \<le> WIN_W \<and>
         0 \<le> rect_top (ball (walls (move_ball g)))"
proof -
  have "rw (ball (move_ball g)) = BALL_SIZE"
    using assms by (simp add: move_ball_frame shapes_ok_def)
  from walls_ball_in[OF this] show ?thesis by (simp add: ball_in_def)
qed

theorem walls_keep_ball_inside_witness:
  "shapes_ok corner \<and> rect_left (ball (move_ball corner)) = - 2 \<and>
   rect_top (ball (move_ball corner)) = - 1 \<and>
   0 \<le> rect_left (ball (walls (move_ball corner))) \<and>
   rect_right (ball (walls (move_ball corner))) \<le> 800 \<and>
   0 \<le> rect_top (ball (walls (move_ball corner)))"
  using walls_keep_ball_inside [OF corner_facts(1)] corner_facts(1)
  by (simp add: corner_move rect_defs WIN_W_def)

section \<open>The paddle\<close>

lemma hypot_scaled: "0 \<le> s \<Longrightarrow> hypot (s * sin a) (- \<bar>s * cos a\<bar>) = s"
proof -
  assume s: "0 \<le> s"
  have "(s * sin a)\<^sup>2 + (- \<bar>s * cos a\<bar>)\<^sup>2 = s\<^sup>2 * (sin a)\<^sup>2 + s\<^sup>2 * (cos a)\<^sup>2"
    by (simp add: power_mult_distrib)
  also have "\<dots> = s\<^sup>2 * ((sin a)\<^sup>2 + (cos a)\<^sup>2)"
    by (simp only: distrib_left)
  also have "\<dots> = s\<^sup>2" by simp
  finally show ?thesis using s by (simp add: hypot_def)
qed

lemma hypot_pos: "0 < y \<Longrightarrow> 0 < hypot x y"
  by (simp add: hypot_def add_nonneg_pos)

lemma paddle_angle:
  assumes "- 5 < d" "d < 105"
  shows "0 < cos ((real_of_int d / 100 - 0.5) * (pi / 1.2))"
proof -
  let ?h = "real_of_int d / 100 - 0.5"
  have d: "- 5 < real_of_int d" "real_of_int d < 105"
    using assms by simp_all
  have e: "?h * (pi / 1.2) = (?h / 1.2) * pi" by simp
  have "- (1 / 2) < ?h / 1.2" "?h / 1.2 < 1 / 2"
    using d by simp_all
  then have "- (1 / 2) * pi < (?h / 1.2) * pi" "(?h / 1.2) * pi < 1 / 2 * pi"
    using pi_gt_zero by (simp_all only: mult_strict_right_mono)
  then have "- (pi / 2) < ?h * (pi / 1.2)" "?h * (pi / 1.2) < pi / 2"
    unfolding e by simp_all
  then show ?thesis by (rule cos_gt_zero_pi)
qed

text \<open>
  Claim C7. With ball and paddle of their fixed sizes the paddle phase raises nothing. It
  acts only when the ball's box overlaps the paddle's and vy > 0; otherwise the state is
  unchanged. When it acts, the speed after the bounce is the speed before it (exactly, the
  velocity being real numbers here), the new vy is negative, and the ball's bottom edge is
  one unit above the paddle's top edge.
\<close>

theorem paddle_bounce:
  assumes "shapes_ok g"
  shows "\<exists>g'. paddle_collision g = Inr g' \<and>
           (if colliderect (ball g) (paddle g) \<and> 0 < snd (vel g)
            then speed (vel g') = speed (vel g) \<and> snd (vel g') < 0 \<and>
                 rect_bottom (ball g') = rect_top (paddle g) - 1
            else g' = g)"
proof (cases "colliderect (ball g) (paddle g) \<and> 0 < snd (vel g)")
  case False
  then show ?thesis by (auto simp: paddle_collision_def)
next
  case True
  let ?d = "rect_centerx (ball g) - rect_left (paddle g)"
  let ?a = "(real_of_int ?d / real_of_int (rw (paddle g)) - 0.5) * (pi / 1.2)"
  let ?s = "hypot (fst (vel g)) (snd (vel g))"
  let ?g' = "g\<lparr>vel := (?s * sin ?a, - \<bar>?s * cos ?a\<bar>),
               ball := set_bottom (rect_top (paddle g) - 1) (ball g)\<rparr>"
  have w: "rw (ball g) = 10" "rw (paddle g) = 100"
    using assms by (simp_all add: shapes_ok_def consts_defs)
  have pc: "paddle_collision g = Inr ?g'"
    using True w by (simp add: paddle_collision_def Let_def)
  have s: "0 < ?s" using True by (simp add: hypot_pos)
  have "- 5 < ?d" "?d < 105"
    using True w by (simp_all add: colliderect_def rect_defs)
  then have "0 < cos ?a"
    using paddle_angle[of ?d] by (simp add: w)
  with s have "0 < ?s * cos ?a" by simp
  then have up: "snd (vel ?g') < 0" by simp
  have sp: "speed (vel ?g') = speed (vel g)"
    using s by (simp add: speed_def hypot_scaled)
  have bt: "rect_bottom (ball ?g') = rect_top (paddle g) - 1"
    by (simp add: rect_defs)
  from pc up sp bt True show ?thesis by simp
qed

lemma paddle_hit_facts:
  "shapes_ok paddle_hit" "colliderect (ball paddle_hit) (paddle paddle_hit)"
  "0 < snd (vel paddle_hit)" "speed (vel paddle_hit) = 320"
  by (simp_all add: paddle_hit_def shapes_ok_def grid_ok_reset_bricks colliderect_def
      rect_defs consts_defs speed_def hypot_def)

theorem paddle_bounce_witness:
  "shapes_ok paddle_hit \<and> colliderect (ball paddle_hit) (paddle paddle_hit) \<and>
   0 < snd (vel paddle_hit) \<and>
   (\<exists>g'. paddle_collision paddle_hit = Inr g' \<and> vel g' = (0, - 320) \<and>
      ball g' = Rect 395 549 10 10 \<and> speed (vel g') = 320 \<and> snd (vel g') < 0 \<and>
      rect_bottom (ball g') = 559)"
proof -
  have h: "hypot 192 256 = 320"
    by (simp add: hypot_def)
  have pc: "paddle_collision paddle_hit =
              Inr (paddle_hit\<lparr>vel := (0, - 320), ball := Rect 395 549 10 10\<rparr>)"
    by (simp add: paddle_collision_def Let_def paddle_hit_def colliderect_def rect_defs h)
  show ?thesis
    using paddle_bounce [OF paddle_hit_facts(1)] paddle_hit_facts
    by (auto simp: pc) (simp_all add: paddle_hit_def rect_defs)
qed

section \<open>The launch\<close>

text \<open>
  The launch velocity as a function of the two draws of the generator. That the draws are
  uniform on \<open>[0, 1)\<close> and independent is the generator's contract; what is proved here is
  where the draws land.
\<close>

lemma launch_angle_range:
  assumes "draw u1"
  shows "pi / 4 \<le> launch_angle u1" "launch_angle u1 < 3 * pi / 4"
proof -
  from assms have u: "0 \<le> u1" "u1 < 1" by (simp_all add: draw_def)
  have "0 \<le> u1 * (pi / 2)" using u(1) pi_gt_zero by simp
  then show "pi / 4 \<le> launch_angle u1" by (simp add: launch_angle_def)
  have "u1 * (pi / 2) < 1 * (pi / 2)"
    using u(2) pi_gt_zero by (intro mult_strict_right_mono) simp_all
  then show "launch_angle u1 < 3 * pi / 4" by (simp add: launch_angle_def)
qed

lemma dir_sign_values: "dir_sign u2 = - 1 \<or> dir_sign u2 = 1"
  by (simp add: dir_sign_def)

lemma launch_upward:
  assumes "draw u1"
  shows "snd (launch_vel u1 u2) < 0"
proof -
  from launch_angle_range[OF assms] pi_gt_zero
  have "0 < launch_angle u1" "launch_angle u1 < pi" by linarith+
  then have "0 < sin (launch_angle u1)" by (rule sin_gt_zero)
  then show ?thesis by (simp add: launch_vel_def BALL_SPEED_def)
qed

lemma launch_speed: "speed (launch_vel u1 u2) = BALL_SPEED"
proof -
  let ?a = "launch_angle u1"
  have d: "(dir_sign u2)\<^sup>2 = 1" by (simp add: dir_sign_def)
  have "(cos ?a * 320 * dir_sign u2)\<^sup>2 + (- \<bar>sin ?a * 320\<bar>)\<^sup>2 =
        320\<^sup>2 * (cos ?a)\<^sup>2 + 320\<^sup>2 * (sin ?a)\<^sup>2"
    by (simp add: power_mult_distrib d)
  also have "\<dots> = 320\<^sup>2 * ((cos ?a)\<^sup>2 + (sin ?a)\<^sup>2)"
    by (simp only: distrib_left)
  also have "\<dots> = 320\<^sup>2" by simp
  finally show ?thesis
    by (simp add: speed_def hypot_def launch_vel_def BALL_SPEED_def)
qed

lemma launch_steep:
  assumes "draw u1"
  shows "\<bar>fst (launch_vel u1 u2)\<bar> \<le> \<bar>snd (launch_vel u1 u2)\<bar>"
proof -
  let ?a = "launch_angle u1"
  from launch_angle_range[OF assms]
  have "- (pi / 2) \<le> 2 * ?a - pi" "2 * ?a - pi \<le> pi / 2" by simp_all
  then have "0 \<le> cos (2 * ?a - pi)" by (rule cos_ge_zero)
  then have "cos (2 * ?a) \<le> 0" by simp
  then have "(cos ?a)\<^sup>2 \<le> (sin ?a)\<^sup>2" by (simp add: cos_double)
  then have "\<bar>cos ?a\<bar> \<le> \<bar>sin ?a\<bar>" by (simp add: abs_le_square_iff)
  then show ?thesis
    by (simp add: launch_vel_def BALL_SPEED_def abs_mult dir_sign_def)
qed

text \<open>
  The angle drawn can exceed a right angle; then the cosine is negative and the ball goes
  left although the sign factor is 1.
\<close>

lemma launch_past_vertical:
  "draw (9 / 10)" "pi / 2 < launch_angle (9 / 10)" "dir_sign (9 / 10) = 1"
  "fst (launch_vel (9 / 10) (9 / 10)) < 0"
proof -
  show "draw (9 / 10)" by (simp add: draw_def)
  show "dir_sign (9 / 10) = 1" by (simp add: dir_sign_def)
  have a: "launch_angle (9 / 10) = 7 * pi / 10" by (simp add: launch_angle_def)
  show "pi / 2 < launch_angle (9 / 10)" using pi_gt_zero by (simp add: a)
  have e: "7 * pi / 10 = pi - 3 * pi / 10" by simp
  have "- (pi / 2) < 3 * pi / 10" "3 * pi / 10 < pi / 2"
    using pi_gt_zero by linarith+
  then have "0 < cos (3 * pi / 10)"
    by (rule cos_gt_zero_pi)
  then have "cos (pi - 3 * pi / 10) < 0"
    by (simp only: cos_pi_minus neg_less_0_iff_less)
  then have "cos (7 * pi / 10) < 0"
    by (simp only: e)
  then show "fst (launch_vel (9 / 10) (9 / 10)) < 0"
    by (simp add: launch_vel_def a dir_sign_def BALL_SPEED_def mult_less_0_iff)
qed

lemma launch_incline_range:
  assumes "draw u1"
  shows "pi / 4 \<le> launch_incline u1" "launch_incline u1 \<le> pi / 2"
  using launch_angle_range[OF assms] by (auto simp: launch_incline_def)

lemma launch_side_values: "launch_side u1 u2 = - 1 \<or> launch_side u1 u2 = 1"
  by (simp add: launch_side_def dir_sign_def)

lemma launch_vel_polar:
  assumes "draw u1"
  shows "launch_vel u1 u2 =
           (launch_side u1 u2 * (cos (launch_incline u1) * BALL_SPEED),
            - (sin (launch_incline u1) * BALL_SPEED))"
proof -
  from launch_angle_range[OF assms] pi_gt_zero
  have "0 < launch_angle u1" "launch_angle u1 < pi" by linarith+
  then have "0 < sin (launch_angle u1)" by (rule sin_gt_zero)
  then have s: "\<bar>sin (launch_angle u1) * BALL_SPEED\<bar> = sin (launch_angle u1) * BALL_SPEED"
    by (simp add: BALL_SPEED_def)
  show ?thesis
    by (simp add: launch_vel_def s launch_incline_def launch_side_def)
qed

lemma launch_off_horizontal:
  assumes "draw u1"
  shows "off_horizontal (launch_vel u1 u2) = launch_incline u1"
proof -
  let ?t = "launch_incline u1"
  from launch_incline_range[OF assms] pi_gt_zero
  have t: "- (pi / 2) \<le> ?t" "?t \<le> pi / 2" "0 \<le> ?t" "?t \<le> pi" by linarith+
  from t(1,2) have c: "0 \<le> cos ?t" by (rule cos_ge_zero)
  have "\<bar>fst (launch_vel u1 u2)\<bar> = cos ?t * BALL_SPEED"
    using c launch_side_values[of u1 u2]
    by (auto simp: launch_vel_polar[OF assms] abs_mult BALL_SPEED_def)
  then have "\<bar>fst (launch_vel u1 u2)\<bar> / speed (launch_vel u1 u2) = cos ?t"
    by (simp add: launch_speed BALL_SPEED_def)
  then show ?thesis
    using t(3,4) by (simp add: off_horizontal_def arccos_cos)
qed

lemma launch_angle_le_half: "launch_angle u1 \<le> pi / 2 \<longleftrightarrow> u1 \<le> 1 / 2"
proof -
  have p: "0 < pi / 2" using pi_gt_zero by simp
  define x where "x = u1 * (pi / 2)"
  have "pi / 4 + x \<le> pi / 2 \<longleftrightarrow> x \<le> 1 / 2 * (pi / 2)"
    by auto
  then have "launch_angle u1 \<le> pi / 2 \<longleftrightarrow> u1 * (pi / 2) \<le> 1 / 2 * (pi / 2)"
    by (simp only: launch_angle_def x_def)
  also have "\<dots> \<longleftrightarrow> u1 \<le> 1 / 2"
    using p by (rule mult_le_cancel_right_pos)
  finally show ?thesis .
qed

lemma launch_incline_le:
  assumes "draw u1" "pi / 4 \<le> t" "t \<le> pi / 2"
  shows "launch_incline u1 \<le> t \<longleftrightarrow>
           u1 \<le> (t - pi / 4) / (pi / 2) \<or> 1 - (t - pi / 4) / (pi / 2) \<le> u1"
proof -
  let ?a = "(t - pi / 4) / (pi / 2)"
  have p: "0 < pi / 2" using pi_gt_zero by simp
  have a: "?a \<le> 1 / 2"
  proof -
    have "t - pi / 4 \<le> 1 / 2 * (pi / 2)" using assms(3) by simp
    then show ?thesis using p by (simp only: pos_divide_le_eq)
  qed
  have lo: "pi / 4 + u1 * (pi / 2) \<le> t \<longleftrightarrow> u1 \<le> ?a"
  proof -
    have "u1 \<le> ?a \<longleftrightarrow> u1 * (pi / 2) \<le> t - pi / 4"
      using p by (rule pos_le_divide_eq)
    then show ?thesis by linarith
  qed
  have hi: "pi - (pi / 4 + u1 * (pi / 2)) \<le> t \<longleftrightarrow> 1 - ?a \<le> u1"
  proof -
    have "1 - u1 \<le> ?a \<longleftrightarrow> (1 - u1) * (pi / 2) \<le> t - pi / 4"
      using p by (rule pos_le_divide_eq)
    moreover have "(1 - u1) * (pi / 2) = pi / 2 - u1 * (pi / 2)"
      by (simp only: left_diff_distrib mult_1)
    ultimately show ?thesis by linarith
  qed
  show ?thesis
  proof (cases "u1 \<le> 1 / 2")
    case True
    then have "launch_incline u1 = pi / 4 + u1 * (pi / 2)"
      unfolding launch_incline_def launch_angle_le_half by (simp only: launch_angle_def if_True)
    with True a lo show ?thesis by auto
  next
    case False
    then have "launch_incline u1 = pi - (pi / 4 + u1 * (pi / 2))"
      unfolding launch_incline_def launch_angle_le_half by (simp only: launch_angle_def if_False)
    with False a hi show ?thesis by auto
  qed
qed

lemma launch_side_right:
  "launch_side u1 u2 = 1 \<longleftrightarrow> (u1 \<le> 1 / 2 \<and> 1 / 2 \<le> u2) \<or> (1 / 2 < u1 \<and> u2 < 1 / 2)"
  unfolding launch_side_def launch_angle_le_half
  by (auto simp: dir_sign_def)


text \<open>
  Claim C5. Every launch (the start of the program, the R key, the respawn after a lost
  life) has the velocity \<open>launch_vel u1 u2\<close> of two draws of the generator. Its direction
  is \<open>launch_incline u1\<close> off the horizontal, between 45 and 90 degrees, to the side
  \<open>launch_side u1 u2\<close>, which is -1 or 1; the ball goes up and its speed is BALL_SPEED.
  The angle is uniform when the draw is: the draws that give an angle of at most \<open>t\<close> are
  those in \<open>[0, a]\<close> and \<open>[1 - a, 1)\<close> with \<open>a = (t - \<pi>/4) / (\<pi>/2)\<close>, two intervals of
  total length \<open>(t - \<pi>/4) / (\<pi>/4)\<close>. The side is fair when the draws are: it is 1 on
  \<open>[0, 1/2] \<times> [1/2, 1)\<close> and \<open>(1/2, 1) \<times> [0, 1/2)\<close>, two rectangles of area 1/4.
\<close>

theorem launch_randomization:
  assumes "draw u1" "draw u2"
  shows "vel (new_game u1 u2) = launch_vel u1 u2 \<and>
         vel (key_r u1 u2 g) = launch_vel u1 u2 \<and>
         (WIN_H < rect_top (ball g) \<and> 1 < lives g \<longrightarrow>
            vel (lose_life u1 u2 g) = launch_vel u1 u2) \<and>
         launch_vel u1 u2 =
           (launch_side u1 u2 * (cos (launch_incline u1) * BALL_SPEED),
            - (sin (launch_incline u1) * BALL_SPEED)) \<and>
         off_horizontal (launch_vel u1 u2) = launch_incline u1 \<and>
         pi / 4 \<le> launch_incline u1 \<and> launch_incline u1 \<le> pi / 2 \<and>
         (\<forall>t. pi / 4 \<le> t \<and> t \<le> pi / 2 \<longrightarrow>
            (launch_incline u1 \<le> t \<longleftrightarrow>
               u1 \<le> (t - pi / 4) / (pi / 2) \<or> 1 - (t - pi / 4) / (pi / 2) \<le> u1)) \<and>
         (launch_side u1 u2 = - 1 \<or> launch_side u1 u2 = 1) \<and>
         (launch_side u1 u2 = 1 \<longleftrightarrow>
            (u1 \<le> 1 / 2 \<and> 1 / 2 \<le> u2) \<or> (1 / 2 < u1 \<and> u2 < 1 / 2)) \<and>
         snd (launch_vel u1 u2) < 0 \<and>
         speed (launch_vel u1 u2) = BALL_SPEED"
proof -
  have n: "vel (new_game u1 u2) = launch_vel u1 u2"
    and k: "vel (key_r u1 u2 g) = launch_vel u1 u2"
    by (simp_all add: new_game_def key_r_def reset_ball_paddle_def)
  have l: "WIN_H < rect_top (ball g) \<and> 1 < lives g \<longrightarrow>
            vel (lose_life u1 u2 g) = launch_vel u1 u2"
    by (simp add: lose_life_def Let_def reset_ball_paddle_def)
  have c: "\<forall>t. pi / 4 \<le> t \<and> t \<le> pi / 2 \<longrightarrow>
            (launch_incline u1 \<le> t \<longleftrightarrow>
               u1 \<le> (t - pi / 4) / (pi / 2) \<or> 1 - (t - pi / 4) / (pi / 2) \<le> u1)"
    using launch_incline_le[OF assms(1)] by blast
  from n k l c launch_vel_polar[OF assms(1), of u2] launch_off_horizontal[OF assms(1), of u2]
    launch_incline_range[OF assms(1)] launch_side_values[of u1 u2] launch_side_right[of u1 u2]
    launch_upward[OF assms(1), of u2] launch_speed[of u1 u2]
  show ?thesis by blast
qed

text \<open>
  The draws 9/10 and 9/10: the code's angle is 126 degrees and its sign is 1; the ball is
  launched up and to the left, 54 degrees off the horizontal, at speed 320.
\<close>

theorem launch_randomization_witness:
  "draw (9 / 10) \<and> launch_angle (9 / 10) = 7 * pi / 10 \<and>
   launch_incline (9 / 10) = 3 * pi / 10 \<and> launch_side (9 / 10) (9 / 10) = - 1 \<and>
   off_horizontal (launch_vel (9 / 10) (9 / 10)) = 3 * pi / 10 \<and>
   pi / 4 \<le> 3 * pi / 10 \<and> 3 * pi / 10 \<le> pi / 2 \<and>
   fst (launch_vel (9 / 10) (9 / 10)) < 0 \<and> snd (launch_vel (9 / 10) (9 / 10)) < 0 \<and>
   speed (launch_vel (9 / 10) (9 / 10)) = 320"
proof -
  have a: "launch_angle (9 / 10) = 7 * pi / 10"
    by (simp add: launch_angle_def)
  have i: "launch_incline (9 / 10) = 3 * pi / 10"
    using pi_gt_zero by (simp add: launch_incline_def a)
  have s: "launch_side (9 / 10) (9 / 10) = - 1"
    using pi_gt_zero by (simp add: launch_side_def a dir_sign_def)
  have b: "pi / 4 \<le> 3 * pi / 10" "3 * pi / 10 \<le> pi / 2"
    using pi_gt_zero by simp_all
  from launch_randomization [OF launch_past_vertical(1) launch_past_vertical(1), of corner]
  have t: "off_horizontal (launch_vel (9 / 10) (9 / 10)) = launch_incline (9 / 10)"
    "snd (launch_vel (9 / 10) (9 / 10)) < 0"
    "speed (launch_vel (9 / 10) (9 / 10)) = BALL_SPEED"
    by blast+
  from t(1) have o: "off_horizontal (launch_vel (9 / 10) (9 / 10)) = 3 * pi / 10"
    by (simp only: i)
  from t(3) have v: "speed (launch_vel (9 / 10) (9 / 10)) = 320"
    by (simp only: BALL_SPEED_def)
  from launch_past_vertical(1,4) a i s o b t(2) v show ?thesis
    by blast
qed

end
